theory Spec2Isabelle
  imports Complex_Main
begin

section \<open>The live session hook of FlashTalk (hooks/useLiveGemini)\<close>

text \<open>
  The hook keeps four React state cells (connection state, volume, error, transcript) and a
  dozen mutable refs. The embedding puts them in one record that every operation takes and
  returns. What the hook does to the browser (audio contexts, buffer sources, the microphone
  stream, the transport) is written to an effect trace, in call order.

  Conventions of the embedding:
  \<^item> a JavaScript \<open>number\<close> holding a time is a \<open>real\<close>: rounding of doubles is left out;
  \<^item> objects are natural numbers, handed out by the counter \<open>fresh\<close>;
  \<^item> strings are lists of 8-bit characters;
  \<^item> a state updater passed to \<open>setTranscript\<close> is put in a queue, as React does, and
    runs at the next render; it reads the refs and the clock as they are then;
  \<^item> each callback runs to its end before the next one starts;
  \<^item> logging to the console is left out.
\<close>

subsection \<open>types.ts\<close>

datatype ConnectionState = DISCONNECTED | CONNECTING | CONNECTED | ERROR

datatype Role = User | Assistant

record TranscriptMessage =
  id' :: string
  role :: Role
  text' :: string
  isPartial :: bool
  timestamp :: nat

subsection \<open>The part of LiveServerMessage that the handler reads\<close>

record Blob =
  data :: "string option"

record Part =
  inlineData :: "Blob option"

record Content =
  parts :: "Part list option"

record Transcription =
  trText :: "string option"

record LiveServerContent =
  interrupted :: "bool option"
  turnComplete :: "bool option"
  modelTurn :: "Content option"
  inputTranscription :: "Transcription option"
  outputTranscription :: "Transcription option"

record LiveServerMessage =
  serverContent :: "LiveServerContent option"

subsection \<open>Effects on the browser and the hook's state\<close>

datatype effect =
    ContextCreate nat
  | ContextClose nat
  | GetUserMedia
  | TracksStop nat
  | SourceStart nat real real
  | SourceStop nat
  | TransportOpen nat
  | TransportClose nat

datatype exn = DecodeError

text \<open>
  The three updater functions that the handler passes to \<open>setTranscript\<close>. The first one
  closes over the constant \<open>userText\<close>; the other two close over nothing and read
  \<open>currentOutputTransRef.current\<close> and the log when they run.
\<close>

datatype updater = AppendUser string | UpsertAssistant | FinalizeAssistant

record Session =
  connectionState :: ConnectionState
  volume :: real
  error :: "string option"
  transcript :: "TranscriptMessage list"
  inputAudioContextRef :: "nat option"
  outputAudioContextRef :: "nat option"
  inputSourceRef :: "nat option"
  processorRef :: "nat option"
  outputNodeRef :: "nat option"
  compressorRef :: "nat option"
  inputAnalyzerRef :: "nat option"
  outputAnalyzerRef :: "nat option"
  nextStartTimeRef :: real
  activeSourcesRef :: "nat list"
  sessionRef :: "nat option"
  streamRef :: "nat option"
  currentInputTransRef :: string
  currentOutputTransRef :: string
  fresh :: nat
  trace :: "effect list"
  transcriptQueue :: "updater list"
  transitions :: "ConnectionState list"

text \<open>
  \<open>transcript\<close> is the log as React last rendered it, \<open>transcriptQueue\<close> the updaters
  that wait for the next render. \<open>transitions\<close> lists the values that the connection state
  was changed to, in order.

  The state of a freshly mounted hook: the initial values of \<open>useState\<close> and \<open>useRef\<close>.
\<close>

definition initialSession :: Session where
  "initialSession =
     \<lparr>connectionState = DISCONNECTED, volume = 0, error = None, transcript = [],
      inputAudioContextRef = None, outputAudioContextRef = None, inputSourceRef = None,
      processorRef = None, outputNodeRef = None, compressorRef = None,
      inputAnalyzerRef = None, outputAnalyzerRef = None, nextStartTimeRef = 0,
      activeSourcesRef = [], sessionRef = None, streamRef = None,
      currentInputTransRef = [], currentOutputTransRef = [], fresh = 0, trace = [],
      transcriptQueue = [], transitions = []\<rparr>"

text \<open>\<open>setConnectionState(v)\<close>: setting the value that is held changes nothing.\<close>

definition setConnectionState :: "ConnectionState \<Rightarrow> Session \<Rightarrow> Session" where
  "setConnectionState v s =
     (if connectionState s = v then s
      else s\<lparr>connectionState := v, transitions := transitions s @ [v]\<rparr>)"

subsection \<open>JavaScript helpers\<close>

text \<open>\<open>v || d\<close> for an optional string: \<open>undefined\<close> and the empty string are falsy.\<close>

definition orDefault :: "string option \<Rightarrow> string \<Rightarrow> string" where
  "orDefault v d = (case v of None \<Rightarrow> d | Some t \<Rightarrow> if t = [] then d else t)"

text \<open>An optional boolean flag is truthy only when it is present and true.\<close>

definition truthy :: "bool option \<Rightarrow> bool" where
  "truthy v = (v = Some True)"

text \<open>
  \<open>String.prototype.trim\<close> on 8-bit characters: TAB, LF, VT, FF, CR, SP and NBSP are
  white space.
\<close>

definition isWhiteSpace :: "char \<Rightarrow> bool" where
  "isWhiteSpace c =
     (c = CHR 0x09 \<or> c = CHR 0x0A \<or> c = CHR 0x0B \<or> c = CHR 0x0C \<or> c = CHR 0x0D
      \<or> c = CHR 0x20 \<or> c = CHR 0xA0)"

definition trim :: "string \<Rightarrow> string" where
  "trim str = rev (dropWhile isWhiteSpace (rev (dropWhile isWhiteSpace str)))"

text \<open>\<open>Date.now().toString()\<close>: the decimal digits of a natural number.\<close>

definition digitChar :: "nat \<Rightarrow> char" where
  "digitChar d = char_of (48 + d)"

function toString :: "nat \<Rightarrow> string" where
  "toString n = (if n < 10 then [digitChar n] else toString (n div 10) @ [digitChar (n mod 10)])"
  by pat_completeness auto
termination
  by (relation "measure (\<lambda>n. n)") auto

declare toString.simps [simp del]


subsection \<open>cleanup\<close>

definition stopActiveSources :: "Session \<Rightarrow> Session" where
  "stopActiveSources s =
     s\<lparr>trace := trace s @ map SourceStop (activeSourcesRef s), activeSourcesRef := []\<rparr>"

definition closeStream :: "Session \<Rightarrow> Session" where
  "closeStream s =
     (case streamRef s of
        None \<Rightarrow> s
      | Some st \<Rightarrow> s\<lparr>trace := trace s @ [TracksStop st], streamRef := None\<rparr>)"

definition closeInputContext :: "Session \<Rightarrow> Session" where
  "closeInputContext s =
     (case inputAudioContextRef s of
        None \<Rightarrow> s
      | Some c \<Rightarrow> s\<lparr>trace := trace s @ [ContextClose c], inputAudioContextRef := None\<rparr>)"

definition closeOutputContext :: "Session \<Rightarrow> Session" where
  "closeOutputContext s =
     (case outputAudioContextRef s of
        None \<Rightarrow> s
      | Some c \<Rightarrow> s\<lparr>trace := trace s @ [ContextClose c], outputAudioContextRef := None\<rparr>)"

definition resetState :: "Session \<Rightarrow> Session" where
  "resetState s =
     (setConnectionState DISCONNECTED s)\<lparr>volume := 0, sessionRef := None,
       currentInputTransRef := [], currentOutputTransRef := [], nextStartTimeRef := 0\<rparr>"

text \<open>
  \<open>source.stop()\<close> sits in a \<open>try\<close> whose \<open>catch\<close> is empty, \<open>track.stop()\<close> and
  \<open>close()\<close> do not throw: \<open>cleanup\<close> has no failing branch.
\<close>

definition cleanup :: "Session \<Rightarrow> Session" where
  "cleanup s =
     resetState (closeOutputContext (closeInputContext (closeStream (stopActiveSources s))))"

subsection \<open>connect\<close>

record MediaError =
  name :: string
  message :: string

text \<open>
  What the environment answers during one \<open>connect()\<close>: the configured credential, whether
  each \<open>AudioContext\<close> constructor returns, what \<open>getUserMedia\<close> settles to, and what the
  promise of \<open>ai.live.connect\<close> settles to (a rejection carries \<open>err.message\<close>, which may be
  undefined).
\<close>

record ConnectEnv =
  apiKey :: "string option"
  inputContextOk :: bool
  outputContextOk :: bool
  userMedia :: "MediaError + unit"
  liveConnect :: "string option + unit"

definition audioContextMessage :: string where
  "audioContextMessage = ''Could not initialize AudioContext. Your browser may not support it.''"

definition apiKeyMessage :: string where
  "apiKeyMessage = ''API Key is missing. Please check your environment configuration.''"

definition fallbackMessage :: string where
  "fallbackMessage = ''Failed to initialize audio or connection.''"

definition microphoneErrorMessage :: "MediaError \<Rightarrow> string" where
  "microphoneErrorMessage err =
     (if name err = ''NotAllowedError'' \<or> name err = ''PermissionDeniedError''
      then ''Microphone access denied. Please allow permissions in your browser settings.''
      else if name err = ''NotFoundError'' \<or> name err = ''DevicesNotFoundError''
      then ''No microphone found. Please check your input devices.''
      else ''Could not access microphone: '' @ message err)"

text \<open>
  Each step of the \<open>try\<close> block returns the state it reached, or the message of the error it
  throws together with the state at the throw.
\<close>

definition createAudioContexts :: "ConnectEnv \<Rightarrow> Session \<Rightarrow> (string option \<times> Session) + Session" where
  "createAudioContexts env s =
     (if inputContextOk env
      then (let s1 = s\<lparr>inputAudioContextRef := Some (fresh s), fresh := Suc (fresh s),
                       trace := trace s @ [ContextCreate (fresh s)]\<rparr>
            in if outputContextOk env
               then Inr (s1\<lparr>outputAudioContextRef := Some (fresh s1), fresh := Suc (fresh s1),
                            trace := trace s1 @ [ContextCreate (fresh s1)]\<rparr>)
               else Inl (Some audioContextMessage, s1))
      else Inl (Some audioContextMessage, s))"

definition setupOutputPipeline :: "Session \<Rightarrow> Session" where
  "setupOutputPipeline s =
     (case outputAudioContextRef s of
        None \<Rightarrow> s
      | Some ctx \<Rightarrow>
          (let s1 = s\<lparr>outputNodeRef := Some (fresh s), compressorRef := Some (fresh s + 1),
                      outputAnalyzerRef := Some (fresh s + 2), fresh := fresh s + 3\<rparr>
           in if inputAudioContextRef s1 \<noteq> None
              then s1\<lparr>inputAnalyzerRef := Some (fresh s1), fresh := Suc (fresh s1)\<rparr>
              else s1))"

definition getMicrophone :: "ConnectEnv \<Rightarrow> Session \<Rightarrow> (string option \<times> Session) + Session" where
  "getMicrophone env s =
     (let s1 = s\<lparr>trace := trace s @ [GetUserMedia]\<rparr>
      in case userMedia env of
           Inl err \<Rightarrow> Inl (Some (microphoneErrorMessage err), s1)
         | Inr _ \<Rightarrow> Inr (s1\<lparr>streamRef := Some (fresh s1), fresh := Suc (fresh s1)\<rparr>))"

definition openSession :: "ConnectEnv \<Rightarrow> Session \<Rightarrow> (string option \<times> Session) + Session" where
  "openSession env s =
     (let s1 = s\<lparr>trace := trace s @ [TransportOpen (fresh s)], sessionRef := Some (fresh s),
                 fresh := Suc (fresh s)\<rparr>
      in case liveConnect env of
           Inl msg \<Rightarrow> Inl (msg, s1)
         | Inr _ \<Rightarrow> Inr s1)"

definition connectTry :: "ConnectEnv \<Rightarrow> Session \<Rightarrow> (string option \<times> Session) + Session" where
  "connectTry env s =
     (case createAudioContexts env ((setConnectionState CONNECTING s)\<lparr>error := None\<rparr>) of
        Inl thrown \<Rightarrow> Inl thrown
      | Inr s2 \<Rightarrow>
          (case getMicrophone env (setupOutputPipeline s2) of
             Inl thrown \<Rightarrow> Inl thrown
           | Inr s4 \<Rightarrow> openSession env s4))"

definition connectCatch :: "string option \<Rightarrow> Session \<Rightarrow> Session" where
  "connectCatch msg s =
     cleanup (setConnectionState ERROR (s\<lparr>error := Some (orDefault msg fallbackMessage)\<rparr>))"

definition connect :: "ConnectEnv \<Rightarrow> Session \<Rightarrow> Session" where
  "connect env s =
     (if orDefault (apiKey env) [] = []
      then s\<lparr>error := Some apiKeyMessage\<rparr>
      else (case connectTry env s of
              Inl (msg, s') \<Rightarrow> connectCatch msg s'
            | Inr s' \<Rightarrow> s'))"

subsection \<open>Transport callbacks other than onmessage, and disconnect\<close>

definition onopen :: "Session \<Rightarrow> Session" where
  "onopen s =
     (let s1 = setConnectionState CONNECTED s
      in if inputAudioContextRef s1 = None \<or> streamRef s1 = None \<or> inputAnalyzerRef s1 = None
         then s1
         else s1\<lparr>inputSourceRef := Some (fresh s1), processorRef := Some (fresh s1 + 1),
                 fresh := fresh s1 + 2\<rparr>)"




text \<open>\<open>source.onended\<close>: the unit leaves the in-flight set.\<close>

definition onended :: "nat \<Rightarrow> Session \<Rightarrow> Session" where
  "onended src s = s\<lparr>activeSourcesRef := filter (\<lambda>x. x \<noteq> src) (activeSourcesRef s)\<rparr>"

subsection \<open>onmessage\<close>

text \<open>What the environment answers while one message is handled.\<close>

record MsgEnv =
  currentTime :: real

definition interruptedFlag :: "LiveServerMessage \<Rightarrow> bool" where
  "interruptedFlag m = (case serverContent m of None \<Rightarrow> False | Some sc \<Rightarrow> truthy (interrupted sc))"

definition turnCompleteFlag :: "LiveServerMessage \<Rightarrow> bool" where
  "turnCompleteFlag m = (case serverContent m of None \<Rightarrow> False | Some sc \<Rightarrow> truthy (turnComplete sc))"

definition inputTrans :: "LiveServerMessage \<Rightarrow> Transcription option" where
  "inputTrans m = Option.bind (serverContent m) inputTranscription"

definition outputTrans :: "LiveServerMessage \<Rightarrow> Transcription option" where
  "outputTrans m = Option.bind (serverContent m) outputTranscription"

text \<open>\<open>message.serverContent?.modelTurn?.parts?.[0]?.inlineData?.data\<close>\<close>

definition firstPart :: "Part list \<Rightarrow> Part option" where
  "firstPart ps = (case ps of [] \<Rightarrow> None | p # _ \<Rightarrow> Some p)"

definition base64Audio :: "LiveServerMessage \<Rightarrow> string option" where
  "base64Audio m =
     Option.bind (Option.bind (Option.bind (Option.bind (Option.bind
       (serverContent m) modelTurn) parts) firstPart) inlineData) data"

definition interrupt :: "Session \<Rightarrow> Session" where
  "interrupt s = (stopActiveSources s)\<lparr>nextStartTimeRef := 0, currentOutputTransRef := []\<rparr>"

text \<open>
  The codec module (utils/audio) is not among the sources. The parameter \<open>dec\<close> stands for
  \<open>decodeAudioData(decodeBase64(payload), ctx, OUTPUT_SAMPLE_RATE).duration\<close>: the duration of
  the decoded buffer, or \<open>None\<close> when decoding throws. A throw rejects the handler's promise
  before anything was written.
\<close>

definition scheduleAudio ::
  "(string \<Rightarrow> real option) \<Rightarrow> MsgEnv \<Rightarrow> LiveServerMessage \<Rightarrow> Session \<Rightarrow> exn + Session" where
  "scheduleAudio dec env m s =
     (case base64Audio m of
        None \<Rightarrow> Inr s
      | Some b \<Rightarrow>
          if b \<noteq> [] \<and> outputAudioContextRef s \<noteq> None \<and> outputNodeRef s \<noteq> None
          then (case dec b of
                  None \<Rightarrow> Inl DecodeError
                | Some dur \<Rightarrow>
                    (let start = (if nextStartTimeRef s < currentTime env
                                  then currentTime env else nextStartTimeRef s)
                     in Inr (s\<lparr>fresh := Suc (fresh s),
                               trace := trace s @ [SourceStart (fresh s) start dur],
                               nextStartTimeRef := start + dur,
                               activeSourcesRef := activeSourcesRef s @ [fresh s]\<rparr>)))
          else Inr s)"

definition inputStep :: "LiveServerMessage \<Rightarrow> Session \<Rightarrow> Session" where
  "inputStep m s =
     (case inputTrans m of
        None \<Rightarrow> s
      | Some t \<Rightarrow> s\<lparr>currentInputTransRef := currentInputTransRef s @ orDefault (trText t) []\<rparr>)"

text \<open>
  \<open>setTranscript(updater)\<close> puts the updater in React's queue. The two object literals
  are built when the updater runs; both calls of \<open>Date.now()\<close> in a literal give one reading.
\<close>

definition setTranscript :: "updater \<Rightarrow> Session \<Rightarrow> Session" where
  "setTranscript u s = s\<lparr>transcriptQueue := transcriptQueue s @ [u]\<rparr>"

definition userLine :: "nat \<Rightarrow> string \<Rightarrow> TranscriptMessage" where
  "userLine now str =
     \<lparr>id' = toString now, role = User, text' = str, isPartial = False, timestamp = now\<rparr>"

definition assistantLine :: "nat \<Rightarrow> string \<Rightarrow> TranscriptMessage" where
  "assistantLine now str =
     \<lparr>id' = toString now, role = Assistant, text' = str, isPartial = True, timestamp = now\<rparr>"

text \<open>
  The body of the upsert updater, with \<open>cur\<close> for \<open>currentOutputTransRef.current\<close>, and
  the body of the updater that finalizes the assistant line.
\<close>

definition upsertAssistant :: "nat \<Rightarrow> string \<Rightarrow> TranscriptMessage list \<Rightarrow> TranscriptMessage list" where
  "upsertAssistant now cur prev =
     (if prev \<noteq> [] \<and> role (last prev) = Assistant \<and> isPartial (last prev)
      then butlast prev @ [(last prev)\<lparr>text' := cur\<rparr>]
      else prev @ [assistantLine now cur])"

definition finalizeAssistant :: "TranscriptMessage list \<Rightarrow> TranscriptMessage list" where
  "finalizeAssistant prev =
     (if prev \<noteq> [] \<and> role (last prev) = Assistant
      then butlast prev @ [(last prev)\<lparr>isPartial := False\<rparr>]
      else prev)"

text \<open>
  The flush of the pending user text, which the handler has twice, word for word: the text
  is copied to \<open>userText\<close> before the call, and the accumulator is emptied after it.
\<close>

definition flushUser :: "Session \<Rightarrow> Session" where
  "flushUser s =
     (if trim (currentInputTransRef s) \<noteq> []
      then (setTranscript (AppendUser (currentInputTransRef s)) s)\<lparr>currentInputTransRef := []\<rparr>
      else s)"

definition outputStep :: "LiveServerMessage \<Rightarrow> Session \<Rightarrow> Session" where
  "outputStep m s =
     (case outputTrans m of
        None \<Rightarrow> s
      | Some t \<Rightarrow>
          (let s1 = flushUser s;
               s2 = s1\<lparr>currentOutputTransRef := currentOutputTransRef s1 @ orDefault (trText t) []\<rparr>
           in setTranscript UpsertAssistant s2))"

definition turnCompleteStep :: "LiveServerMessage \<Rightarrow> Session \<Rightarrow> Session" where
  "turnCompleteStep m s =
     (if turnCompleteFlag m
      then (let s1 = flushUser s
            in if currentOutputTransRef s1 \<noteq> []
               then (setTranscript FinalizeAssistant s1)\<lparr>currentOutputTransRef := []\<rparr>
               else s1)
      else s)"

definition onmessage ::
  "(string \<Rightarrow> real option) \<Rightarrow> MsgEnv \<Rightarrow> LiveServerMessage \<Rightarrow> Session \<Rightarrow> exn + Session" where
  "onmessage dec env m s =
     (if interruptedFlag m
      then Inr (interrupt s)
      else (case scheduleAudio dec env m s of
              Inl e \<Rightarrow> Inl e
            | Inr s1 \<Rightarrow> Inr (turnCompleteStep m (outputStep m (inputStep m s1)))))"

text \<open>
  Messages are handled in arrival order. A message whose handler throws is dropped: the
  state stays as it was.
\<close>

definition deliver :: "(string \<Rightarrow> real option) \<Rightarrow> MsgEnv \<times> LiveServerMessage \<Rightarrow> Session \<Rightarrow> Session" where
  "deliver dec ev s = (case onmessage dec (fst ev) (snd ev) s of Inl _ \<Rightarrow> s | Inr s' \<Rightarrow> s')"

fun deliverAll :: "(string \<Rightarrow> real option) \<Rightarrow> (MsgEnv \<times> LiveServerMessage) list \<Rightarrow> Session \<Rightarrow> Session" where
  "deliverAll dec [] s = s"
| "deliverAll dec (ev # evs) s = deliverAll dec evs (deliver dec ev s)"

subsection \<open>React renders\<close>

text \<open>
  At a render React calls the queued updaters in order, each on the result of the one
  before. An updater reads \<open>Date.now()\<close> (\<open>now\<close>) and \<open>currentOutputTransRef.current\<close>
  (\<open>cur\<close>) at that moment, not when it was queued. The updaters of one render read the
  same clock value.
\<close>

definition runUpdater :: "nat \<Rightarrow> string \<Rightarrow> TranscriptMessage list \<Rightarrow> updater \<Rightarrow> TranscriptMessage list" where
  "runUpdater now cur prev u =
     (case u of
        AppendUser userText \<Rightarrow> prev @ [userLine now userText]
      | UpsertAssistant \<Rightarrow> upsertAssistant now cur prev
      | FinalizeAssistant \<Rightarrow> finalizeAssistant prev)"

definition runQueue :: "nat \<Rightarrow> string \<Rightarrow> updater list \<Rightarrow> TranscriptMessage list \<Rightarrow> TranscriptMessage list" where
  "runQueue now cur q prev = foldl (runUpdater now cur) prev q"

definition render :: "nat \<Rightarrow> Session \<Rightarrow> Session" where
  "render now s =
     s\<lparr>transcript := runQueue now (currentOutputTransRef s) (transcriptQueue s) (transcript s),
       transcriptQueue := []\<rparr>"

text \<open>
  What happens to a session: a message arrives, or React renders. React renders at some
  moment after a handler that queued an update, before or after later messages.
\<close>

datatype event = Message MsgEnv LiveServerMessage | Render nat

fun step :: "(string \<Rightarrow> real option) \<Rightarrow> event \<Rightarrow> Session \<Rightarrow> Session" where
  "step dec (Message env m) s = deliver dec (env, m) s"
| "step dec (Render now) s = render now s"

fun run :: "(string \<Rightarrow> real option) \<Rightarrow> event list \<Rightarrow> Session \<Rightarrow> Session" where
  "run dec [] s = s"
| "run dec (e # es) s = run dec es (step dec e s)"

fun messagesOf :: "event list \<Rightarrow> LiveServerMessage list" where
  "messagesOf [] = []"
| "messagesOf (Message env m # es) = m # messagesOf es"
| "messagesOf (Render now # es) = messagesOf es"

subsection \<open>Reading the trace and the messages\<close>

text \<open>The playback units started so far: start time and duration, in scheduling order.\<close>

fun starts :: "effect list \<Rightarrow> (real \<times> real) list" where
  "starts [] = []"
| "starts (SourceStart src t d # es) = (t, d) # starts es"
| "starts (e # es) = starts es"

text \<open>
  The scheduling rule in the words of the specification: a buffer arriving at clock time
  \<open>now\<close> starts at the maximum of the cursor and \<open>now\<close>, and the cursor moves to the end of
  that buffer. The argument lists arrival time and duration of each buffer.
\<close>

fun scheduleSpec :: "real \<Rightarrow> (real \<times> real) list \<Rightarrow> (real \<times> real) list" where
  "scheduleSpec cursor [] = []"
| "scheduleSpec cursor ((now, d) # bs) = (max cursor now, d) # scheduleSpec (max cursor now + d) bs"

text \<open>The cursor after the buffers of the list, by the same rule.\<close>

fun cursorSpec :: "real \<Rightarrow> (real \<times> real) list \<Rightarrow> real" where
  "cursorSpec cursor [] = cursor"
| "cursorSpec cursor ((now, d) # bs) = cursorSpec (max cursor now + d) bs"

definition inputText :: "LiveServerMessage \<Rightarrow> string" where
  "inputText m = (case inputTrans m of None \<Rightarrow> [] | Some t \<Rightarrow> orDefault (trText t) [])"

definition outputText :: "LiveServerMessage \<Rightarrow> string" where
  "outputText m = (case outputTrans m of None \<Rightarrow> [] | Some t \<Rightarrow> orDefault (trText t) [])"

text \<open>A message whose audio payload, if it has one, does not make the codec throw.\<close>

definition audioDecodes :: "(string \<Rightarrow> real option) \<Rightarrow> LiveServerMessage \<Rightarrow> bool" where
  "audioDecodes dec m = (case base64Audio m of None \<Rightarrow> True | Some b \<Rightarrow> b = [] \<or> dec b \<noteq> None)"

text \<open>A message that delivers a buffer of duration \<open>d\<close> to the scheduler.\<close>

definition deliversBuffer :: "(string \<Rightarrow> real option) \<Rightarrow> LiveServerMessage \<Rightarrow> real \<Rightarrow> bool" where
  "deliversBuffer dec m d =
     (\<not> interruptedFlag m \<and>
      (case base64Audio m of None \<Rightarrow> False | Some b \<Rightarrow> b \<noteq> [] \<and> dec b = Some d))"

subsection \<open>Sample messages and environments\<close>

definition noContent :: LiveServerContent where
  "noContent = \<lparr>interrupted = None, turnComplete = None, modelTurn = None,
                inputTranscription = None, outputTranscription = None\<rparr>"

definition inputDelta :: "string \<Rightarrow> LiveServerMessage" where
  "inputDelta str = \<lparr>serverContent = Some (noContent\<lparr>inputTranscription := Some \<lparr>trText = Some str\<rparr>\<rparr>)\<rparr>"

definition outputDelta :: "string \<Rightarrow> LiveServerMessage" where
  "outputDelta str = \<lparr>serverContent = Some (noContent\<lparr>outputTranscription := Some \<lparr>trText = Some str\<rparr>\<rparr>)\<rparr>"

definition turnCompleteMessage :: LiveServerMessage where
  "turnCompleteMessage = \<lparr>serverContent = Some (noContent\<lparr>turnComplete := Some True\<rparr>)\<rparr>"

definition interruptedMessage :: LiveServerMessage where
  "interruptedMessage = \<lparr>serverContent = Some (noContent\<lparr>interrupted := Some True\<rparr>)\<rparr>"

definition audioContent :: "string \<Rightarrow> Content" where
  "audioContent b = \<lparr>parts = Some [\<lparr>inlineData = Some \<lparr>data = Some b\<rparr>\<rparr>]\<rparr>"

definition audioMessage :: "string \<Rightarrow> LiveServerMessage" where
  "audioMessage b = \<lparr>serverContent = Some (noContent\<lparr>modelTurn := Some (audioContent b)\<rparr>)\<rparr>"

text \<open>An interruption that also carries audio, both transcriptions and turn-complete.\<close>

definition loadedInterruption :: LiveServerMessage where
  "loadedInterruption =
     \<lparr>serverContent = Some \<lparr>interrupted = Some True, turnComplete = Some True,
        modelTurn = Some (audioContent ''AAAA''),
        inputTranscription = Some \<lparr>trText = Some ''stop''\<rparr>,
        outputTranscription = Some \<lparr>trText = Some ''and so''\<rparr>\<rparr>\<rparr>"

text \<open>A codec that gives every payload half a second, and one that always throws.\<close>

definition halfSecond :: "string \<Rightarrow> real option" where
  "halfSecond b = Some (1 / 2)"


definition clockAt :: "real \<Rightarrow> MsgEnv" where
  "clockAt t = \<lparr>currentTime = t\<rparr>"

definition goodEnv :: ConnectEnv where
  "goodEnv = \<lparr>apiKey = Some ''key'', inputContextOk = True, outputContextOk = True,
              userMedia = Inr (), liveConnect = Inr ()\<rparr>"

definition micDeniedEnv :: ConnectEnv where
  "micDeniedEnv = goodEnv\<lparr>userMedia := Inl \<lparr>name = ''NotAllowedError'', message = ''denied''\<rparr>\<rparr>"

definition noKeyEnv :: ConnectEnv where
  "noKeyEnv = goodEnv\<lparr>apiKey := None\<rparr>"

text \<open>
  A connected session with two units in flight and an assistant line half spoken: the state
  after a successful connect, the transport opening, two audio messages at clock time 1,
  the output-transcription delta "Hel" and a render.
\<close>

definition busySession :: Session where
  "busySession =
     \<lparr>connectionState = CONNECTED, volume = 0, error = None,
      transcript = [\<lparr>id' = ''1700000000000'', role = Assistant, text' = ''Hel'',
                     isPartial = True, timestamp = 1700000000000\<rparr>],
      inputAudioContextRef = Some 0, outputAudioContextRef = Some 1,
      inputSourceRef = Some 8, processorRef = Some 9, outputNodeRef = Some 2,
      compressorRef = Some 3, inputAnalyzerRef = Some 5, outputAnalyzerRef = Some 4,
      nextStartTimeRef = 2, activeSourcesRef = [10, 11], sessionRef = Some 7,
      streamRef = Some 6, currentInputTransRef = [], currentOutputTransRef = ''Hel'',
      fresh = 12,
      trace = [ContextCreate 0, ContextCreate 1, GetUserMedia, TransportOpen 7,
               SourceStart 10 1 (1 / 2), SourceStart 11 (3 / 2) (1 / 2)],
      transcriptQueue = [], transitions = [CONNECTING, CONNECTED]\<rparr>"

text \<open>The session after a successful connect and the opening of the transport.\<close>

definition connectedSession :: Session where
  "connectedSession = onopen (connect goodEnv initialSession)"

subsection \<open>Notions for the statements about a turn\<close>

text \<open>
  The test of the upsert updater on the log it is given: the last entry exists, is of the
  assistant and is partial.
\<close>

definition endsWithPartialAssistant :: "TranscriptMessage list \<Rightarrow> bool" where
  "endsWithPartialAssistant prev =
     (prev \<noteq> [] \<and> role (last prev) = Assistant \<and> isPartial (last prev))"

text \<open>
  \<open>turnBase old U base\<close>: the log \<open>base\<close> is \<open>old\<close>, followed by the finalized
  user line with text \<open>U\<close> when \<open>U\<close> is not blank.
\<close>

definition turnBase :: "TranscriptMessage list \<Rightarrow> string \<Rightarrow> TranscriptMessage list \<Rightarrow> bool" where
  "turnBase old U base =
     (if trim U = [] then base = old
      else (\<exists>u. base = old @ [u] \<and> role u = User \<and> text' u = U \<and> \<not> isPartial u))"

text \<open>
  \<open>pending q0 T0 s\<close>: whenever React renders next, the log is one that the updaters
  \<open>q0\<close> give on the log \<open>T0\<close> (at some reading of the clock and of the accumulator).
\<close>

definition pending :: "updater list \<Rightarrow> TranscriptMessage list \<Rightarrow> Session \<Rightarrow> bool" where
  "pending q0 T0 s =
     (\<forall>now c. \<exists>n' c'.
        runQueue now c (transcriptQueue s) (transcript s) = runQueue n' c' q0 T0)"

text \<open>
  \<open>turnInvariant q0 T0 U p s\<close>: whenever React renders next, the log is such a log,
  then the user line of the turn if \<open>U\<close> is not blank, then one assistant line, partial
  iff \<open>p\<close>. While the line is partial its text is the accumulator as the render reads it
  if an upsert is waiting, and else the accumulator as it is now.
\<close>

definition turnInvariant ::
  "updater list \<Rightarrow> TranscriptMessage list \<Rightarrow> string \<Rightarrow> bool \<Rightarrow> Session \<Rightarrow> bool" where
  "turnInvariant q0 T0 U p s =
     (\<forall>now c. \<exists>n' c' base a.
        runQueue now c (transcriptQueue s) (transcript s) = base @ [a]
        \<and> turnBase (runQueue n' c' q0 T0) U base \<and> role a = Assistant \<and> isPartial a = p
        \<and> (p \<longrightarrow> text' a = (if UpsertAssistant \<in> set (transcriptQueue s) then c
                             else currentOutputTransRef s)))"

section \<open>Properties\<close>

subsection \<open>Helper facts\<close>

lemma starts_append: "starts (xs @ ys) = starts xs @ starts ys"
  by (induction xs rule: starts.induct) simp_all

lemma starts_stops: "starts (map SourceStop xs) = []"
  by (induction xs) simp_all

lemmas message_defs = interruptedFlag_def turnCompleteFlag_def inputTrans_def outputTrans_def
  base64Audio_def firstPart_def truthy_def noContent_def inputDelta_def outputDelta_def
  turnCompleteMessage_def interruptedMessage_def audioContent_def audioMessage_def
  loadedInterruption_def

lemma connect_goodEnv:
  "connect goodEnv initialSession =
     initialSession\<lparr>connectionState := CONNECTING, inputAudioContextRef := Some 0,
       outputAudioContextRef := Some 1, outputNodeRef := Some 2, compressorRef := Some 3,
       outputAnalyzerRef := Some 4, inputAnalyzerRef := Some 5, streamRef := Some 6,
       sessionRef := Some 7, fresh := 8,
       trace := [ContextCreate 0, ContextCreate 1, GetUserMedia, TransportOpen 7],
       transitions := [CONNECTING]\<rparr>"
  by (simp add: goodEnv_def initialSession_def connect_def orDefault_def connectTry_def
      setConnectionState_def
      createAudioContexts_def setupOutputPipeline_def getMicrophone_def openSession_def Let_def)

lemma connect_micDeniedEnv:
  "connect micDeniedEnv initialSession =
     initialSession\<lparr>error := Some ''Microphone access denied. Please allow permissions in your browser settings.'',
       outputNodeRef := Some 2, compressorRef := Some 3,
       outputAnalyzerRef := Some 4, inputAnalyzerRef := Some 5, fresh := 6,
       trace := [ContextCreate 0, ContextCreate 1, GetUserMedia, ContextClose 0, ContextClose 1],
       transitions := [CONNECTING, ERROR, DISCONNECTED]\<rparr>"
  by (simp add: micDeniedEnv_def setConnectionState_def goodEnv_def initialSession_def connect_def orDefault_def connectTry_def
      createAudioContexts_def setupOutputPipeline_def getMicrophone_def openSession_def Let_def
      connectCatch_def microphoneErrorMessage_def cleanup_def resetState_def closeOutputContext_def
      closeInputContext_def closeStream_def stopActiveSources_def)

lemma busySession_fields:
  "outputAudioContextRef busySession = Some 1" "outputNodeRef busySession = Some 2"
  "activeSourcesRef busySession = [10, 11]" "nextStartTimeRef busySession = 2"
  "trace busySession = [ContextCreate 0, ContextCreate 1, GetUserMedia, TransportOpen 7,
       SourceStart 10 1 (1 / 2), SourceStart 11 (3 / 2) (1 / 2)]"
  "currentOutputTransRef busySession = ''Hel''" "currentInputTransRef busySession = []"
  "map text' (transcript busySession) = [''Hel'']"
  by (simp_all add: busySession_def)

lemma initialSession_fields:
  "connectionState initialSession = DISCONNECTED" "volume initialSession = 0"
  "error initialSession = None" "transcript initialSession = []"
  "inputAudioContextRef initialSession = None" "outputAudioContextRef initialSession = None"
  "inputSourceRef initialSession = None" "processorRef initialSession = None"
  "outputNodeRef initialSession = None" "compressorRef initialSession = None"
  "inputAnalyzerRef initialSession = None" "outputAnalyzerRef initialSession = None"
  "nextStartTimeRef initialSession = 0" "activeSourcesRef initialSession = []"
  "sessionRef initialSession = None" "streamRef initialSession = None"
  "currentInputTransRef initialSession = []" "currentOutputTransRef initialSession = []"
  "fresh initialSession = 0" "trace initialSession = []"
  "transcriptQueue initialSession = []" "transitions initialSession = []"
  by (simp_all add: initialSession_def)

subsection \<open>cleanup, field by field\<close>

lemma closeStream_eq:
  "closeStream s = s\<lparr>trace := trace s @ (case streamRef s of None \<Rightarrow> [] | Some st \<Rightarrow> [TracksStop st]),
                      streamRef := None\<rparr>"
  by (cases "streamRef s") (simp_all add: closeStream_def)

lemma closeInputContext_eq:
  "closeInputContext s =
     s\<lparr>trace := trace s @ (case inputAudioContextRef s of None \<Rightarrow> [] | Some c \<Rightarrow> [ContextClose c]),
       inputAudioContextRef := None\<rparr>"
  by (cases "inputAudioContextRef s") (simp_all add: closeInputContext_def)

lemma closeOutputContext_eq:
  "closeOutputContext s =
     s\<lparr>trace := trace s @ (case outputAudioContextRef s of None \<Rightarrow> [] | Some c \<Rightarrow> [ContextClose c]),
       outputAudioContextRef := None\<rparr>"
  by (cases "outputAudioContextRef s") (simp_all add: closeOutputContext_def)

lemma resetState_eq:
  "resetState s =
     s\<lparr>connectionState := DISCONNECTED,
       transitions := (if connectionState s = DISCONNECTED then transitions s
                       else transitions s @ [DISCONNECTED]),
       volume := 0, sessionRef := None, currentInputTransRef := [],
       currentOutputTransRef := [], nextStartTimeRef := 0\<rparr>"
  by (cases "connectionState s = DISCONNECTED") (simp_all add: resetState_def setConnectionState_def)

lemma cleanup_eq:
  "cleanup s =
     s\<lparr>trace := trace s @ map SourceStop (activeSourcesRef s)
                 @ (case streamRef s of None \<Rightarrow> [] | Some st \<Rightarrow> [TracksStop st])
                 @ (case inputAudioContextRef s of None \<Rightarrow> [] | Some c \<Rightarrow> [ContextClose c])
                 @ (case outputAudioContextRef s of None \<Rightarrow> [] | Some c \<Rightarrow> [ContextClose c]),
       activeSourcesRef := [], streamRef := None, inputAudioContextRef := None,
       outputAudioContextRef := None, connectionState := DISCONNECTED,
       transitions := (if connectionState s = DISCONNECTED then transitions s
                       else transitions s @ [DISCONNECTED]),
       volume := 0, sessionRef := None, currentInputTransRef := [], currentOutputTransRef := [],
       nextStartTimeRef := 0\<rparr>"
  by (simp add: cleanup_def resetState_eq closeOutputContext_eq closeInputContext_eq
      closeStream_eq stopActiveSources_def)

lemma cleanup_twice: "cleanup (cleanup s) = cleanup s"
  by (simp add: cleanup_eq)

lemma cleanup_initial: "cleanup initialSession = initialSession"
  by (simp add: cleanup_eq initialSession_def)

lemma cleanup_fields:
  "connectionState (cleanup s) = DISCONNECTED" "volume (cleanup s) = 0"
  "currentInputTransRef (cleanup s) = []" "currentOutputTransRef (cleanup s) = []"
  "nextStartTimeRef (cleanup s) = 0" "activeSourcesRef (cleanup s) = []"
  "streamRef (cleanup s) = None" "inputAudioContextRef (cleanup s) = None"
  "outputAudioContextRef (cleanup s) = None" "sessionRef (cleanup s) = None"
  by (simp_all add: cleanup_eq)

lemma cleanup_frame:
  "transcript (cleanup s) = transcript s" "error (cleanup s) = error s"
  "outputNodeRef (cleanup s) = outputNodeRef s" "compressorRef (cleanup s) = compressorRef s"
  "inputAnalyzerRef (cleanup s) = inputAnalyzerRef s"
  "outputAnalyzerRef (cleanup s) = outputAnalyzerRef s"
  "inputSourceRef (cleanup s) = inputSourceRef s" "processorRef (cleanup s) = processorRef s"
  "fresh (cleanup s) = fresh s" "transcriptQueue (cleanup s) = transcriptQueue s"
  by (simp_all add: cleanup_eq)

lemma cleanup_releases:
  "set (map SourceStop (activeSourcesRef s)) \<subseteq> set (trace (cleanup s))"
  "streamRef s = Some st \<Longrightarrow> TracksStop st \<in> set (trace (cleanup s))"
  "inputAudioContextRef s = Some c \<Longrightarrow> ContextClose c \<in> set (trace (cleanup s))"
  "outputAudioContextRef s = Some c \<Longrightarrow> ContextClose c \<in> set (trace (cleanup s))"
  by (auto simp: cleanup_eq)

subsection \<open>The message handler, block by block\<close>

lemma onmessage_interrupted: "interruptedFlag m \<Longrightarrow> onmessage dec env m s = Inr (interrupt s)"
  by (simp add: onmessage_def)

lemma interruptedFlag_interruptedMessage: "interruptedFlag interruptedMessage"
  by (simp add: message_defs)

lemma interrupt_fields:
  "trace (interrupt s) = trace s @ map SourceStop (activeSourcesRef s)"
  "activeSourcesRef (interrupt s) = []" "nextStartTimeRef (interrupt s) = 0"
  "currentOutputTransRef (interrupt s) = []"
  "currentInputTransRef (interrupt s) = currentInputTransRef s"
  "transcript (interrupt s) = transcript s" "fresh (interrupt s) = fresh s"
  "transcriptQueue (interrupt s) = transcriptQueue s"
  "outputAudioContextRef (interrupt s) = outputAudioContextRef s"
  "outputNodeRef (interrupt s) = outputNodeRef s"
  by (simp_all add: interrupt_def stopActiveSources_def)

lemma if_less_max: "(if a < b then b else a) = max a (b::real)"
  by (simp add: max_def)

lemma scheduleAudio_buffer:
  assumes "deliversBuffer dec m d" "outputAudioContextRef s \<noteq> None" "outputNodeRef s \<noteq> None"
  shows "scheduleAudio dec env m s =
    Inr (s\<lparr>fresh := Suc (fresh s),
           trace := trace s @ [SourceStart (fresh s) (max (nextStartTimeRef s) (currentTime env)) d],
           nextStartTimeRef := max (nextStartTimeRef s) (currentTime env) + d,
           activeSourcesRef := activeSourcesRef s @ [fresh s]\<rparr>)"
proof -
  from assms(1) obtain b where b: "base64Audio m = Some b" "b \<noteq> []" "dec b = Some d"
    by (auto simp: deliversBuffer_def split: option.splits)
  show ?thesis using b assms(2,3)
    by (simp add: scheduleAudio_def Let_def if_less_max)
qed

text \<open>The three transcription blocks touch the log and the two accumulators only.\<close>

lemma flushUser_frame:
  "trace (flushUser s) = trace s" "nextStartTimeRef (flushUser s) = nextStartTimeRef s"
  "outputAudioContextRef (flushUser s) = outputAudioContextRef s"
  "outputNodeRef (flushUser s) = outputNodeRef s"
  "currentOutputTransRef (flushUser s) = currentOutputTransRef s"
  "fresh (flushUser s) = fresh s" "activeSourcesRef (flushUser s) = activeSourcesRef s"
  "transcript (flushUser s) = transcript s"
  by (simp_all add: flushUser_def setTranscript_def)

lemma inputStep_frame:
  "trace (inputStep m s) = trace s" "nextStartTimeRef (inputStep m s) = nextStartTimeRef s"
  "outputAudioContextRef (inputStep m s) = outputAudioContextRef s"
  "outputNodeRef (inputStep m s) = outputNodeRef s"
  "currentOutputTransRef (inputStep m s) = currentOutputTransRef s"
  "transcript (inputStep m s) = transcript s"
  "fresh (inputStep m s) = fresh s" "activeSourcesRef (inputStep m s) = activeSourcesRef s"
  "transcriptQueue (inputStep m s) = transcriptQueue s"
  by (cases "inputTrans m"; simp add: inputStep_def)+

lemma outputStep_frame:
  "trace (outputStep m s) = trace s" "nextStartTimeRef (outputStep m s) = nextStartTimeRef s"
  "outputAudioContextRef (outputStep m s) = outputAudioContextRef s"
  "outputNodeRef (outputStep m s) = outputNodeRef s"
  "fresh (outputStep m s) = fresh s" "activeSourcesRef (outputStep m s) = activeSourcesRef s"
  "transcript (outputStep m s) = transcript s"
  by (cases "outputTrans m"; simp add: outputStep_def Let_def setTranscript_def flushUser_frame)+

lemma turnCompleteStep_frame:
  "trace (turnCompleteStep m s) = trace s"
  "nextStartTimeRef (turnCompleteStep m s) = nextStartTimeRef s"
  "outputAudioContextRef (turnCompleteStep m s) = outputAudioContextRef s"
  "outputNodeRef (turnCompleteStep m s) = outputNodeRef s"
  "fresh (turnCompleteStep m s) = fresh s"
  "activeSourcesRef (turnCompleteStep m s) = activeSourcesRef s"
  "transcript (turnCompleteStep m s) = transcript s"
  by (simp_all add: turnCompleteStep_def Let_def setTranscript_def flushUser_frame)

lemmas transcription_frame = turnCompleteStep_frame outputStep_frame inputStep_frame

subsection \<open>The playback scheduler\<close>

lemma deliver_buffer:
  assumes "deliversBuffer dec (snd ev) d" "outputAudioContextRef s \<noteq> None" "outputNodeRef s \<noteq> None"
  shows "trace (deliver dec ev s)
           = trace s @ [SourceStart (fresh s) (max (nextStartTimeRef s) (currentTime (fst ev))) d]"
    and "nextStartTimeRef (deliver dec ev s) = max (nextStartTimeRef s) (currentTime (fst ev)) + d"
    and "outputAudioContextRef (deliver dec ev s) = outputAudioContextRef s"
    and "outputNodeRef (deliver dec ev s) = outputNodeRef s"
proof -
  have ni: "\<not> interruptedFlag (snd ev)"
    using assms(1) by (simp add: deliversBuffer_def)
  note sa = scheduleAudio_buffer [OF assms, of "fst ev"]
  show "trace (deliver dec ev s)
           = trace s @ [SourceStart (fresh s) (max (nextStartTimeRef s) (currentTime (fst ev))) d]"
    and "nextStartTimeRef (deliver dec ev s) = max (nextStartTimeRef s) (currentTime (fst ev)) + d"
    and "outputAudioContextRef (deliver dec ev s) = outputAudioContextRef s"
    and "outputNodeRef (deliver dec ev s) = outputNodeRef s"
    using ni sa by (simp_all add: deliver_def onmessage_def transcription_frame)
qed

lemma deliverAll_buffers:
  assumes "list_all2 (\<lambda>ev b. deliversBuffer dec (snd ev) (snd b) \<and> currentTime (fst ev) = fst b) evs bs"
    and "outputAudioContextRef s \<noteq> None" "outputNodeRef s \<noteq> None"
  shows "starts (trace (deliverAll dec evs s)) = starts (trace s) @ scheduleSpec (nextStartTimeRef s) bs
       \<and> nextStartTimeRef (deliverAll dec evs s) = cursorSpec (nextStartTimeRef s) bs"
  using assms
proof (induction evs bs arbitrary: s rule: list_all2_induct)
  case Nil
  then show ?case by simp
next
  case (Cons ev evs b bs)
  obtain now d where b: "b = (now, d)" by (cases b)
  from Cons.hyps(1) b have db: "deliversBuffer dec (snd ev) d" and t: "currentTime (fst ev) = now"
    by simp_all
  note step = deliver_buffer [OF db Cons.prems]
  have "starts (trace (deliverAll dec evs (deliver dec ev s)))
          = starts (trace (deliver dec ev s)) @ scheduleSpec (nextStartTimeRef (deliver dec ev s)) bs
       \<and> nextStartTimeRef (deliverAll dec evs (deliver dec ev s))
          = cursorSpec (nextStartTimeRef (deliver dec ev s)) bs"
    using Cons.prems by (intro Cons.IH) (simp_all add: step)
  then show ?case
    by (simp add: step b t starts_append)
qed

lemma scheduleSpec_length: "length (scheduleSpec c bs) = length bs"
  by (induction c bs rule: scheduleSpec.induct) simp_all

lemma scheduleSpec_lower:
  "\<forall>b\<in>set bs. 0 \<le> snd b \<Longrightarrow> p \<in> set (scheduleSpec c bs) \<Longrightarrow> c \<le> fst p"
proof (induction c bs rule: scheduleSpec.induct)
  case (1 cursor)
  then show ?case by simp
next
  case (2 cursor now d bs)
  from "2.prems" consider "p = (max cursor now, d)" | "p \<in> set (scheduleSpec (max cursor now + d) bs)"
    by auto
  then show ?case
  proof cases
    case 1
    then show ?thesis by simp
  next
    case 2
    with "2.IH" "2.prems"(1) have "max cursor now + d \<le> fst p" by simp
    moreover have "0 \<le> d" using "2.prems"(1) by simp
    ultimately show ?thesis by simp
  qed
qed

lemma scheduleSpec_sorted:
  "\<forall>b\<in>set bs. 0 \<le> snd b \<Longrightarrow> sorted (map fst (scheduleSpec c bs))"
proof (induction c bs rule: scheduleSpec.induct)
  case (1 cursor)
  then show ?case by simp
next
  case (2 cursor now d bs)
  have d: "0 \<le> d" using "2.prems" by simp
  have "max cursor now \<le> fst p" if "p \<in> set (scheduleSpec (max cursor now + d) bs)" for p
  proof -
    have "max cursor now + d \<le> fst p"
      using scheduleSpec_lower [OF _ that] "2.prems" by simp
    with d show ?thesis by linarith
  qed
  with 2 show ?case by simp
qed

lemma scheduleSpec_back_to_back:
  "Suc i < length bs \<Longrightarrow>
   fst (bs ! Suc i) \<le> fst (scheduleSpec c bs ! i) + snd (scheduleSpec c bs ! i) \<Longrightarrow>
   fst (scheduleSpec c bs ! Suc i) = fst (scheduleSpec c bs ! i) + snd (scheduleSpec c bs ! i)"
proof (induction c bs arbitrary: i rule: scheduleSpec.induct)
  case (1 cursor)
  then show ?case by simp
next
  case (2 cursor now d bs)
  show ?case
  proof (cases i)
    case 0
    with "2.prems" obtain now' d' bs' where bs: "bs = (now', d') # bs'"
      by (cases bs) auto
    with 0 "2.prems" show ?thesis by (simp add: max_def)
  next
    case (Suc j)
    with "2.prems" "2.IH" [of j] show ?thesis by simp
  qed
qed

lemma scheduleSpec_nth:
  "i < length bs \<Longrightarrow>
   scheduleSpec c bs ! i = (max (cursorSpec c (take i bs)) (fst (bs ! i)), snd (bs ! i))"
proof (induction c bs arbitrary: i rule: scheduleSpec.induct)
  case (1 cursor)
  then show ?case by simp
next
  case (2 cursor now d bs)
  then show ?case by (cases i) simp_all
qed

lemma cursorSpec_take_Suc:
  "i < length bs \<Longrightarrow>
   cursorSpec c (take (Suc i) bs) = max (cursorSpec c (take i bs)) (fst (bs ! i)) + snd (bs ! i)"
proof (induction c bs arbitrary: i rule: cursorSpec.induct)
  case (1 cursor)
  then show ?case by simp
next
  case (2 cursor now d bs)
  then show ?case by (cases i) simp_all
qed

lemma deliversBuffer_audioMessage: "b \<noteq> [] \<Longrightarrow> deliversBuffer halfSecond (audioMessage b) (1 / 2)"
  by (simp add: deliversBuffer_def message_defs halfSecond_def)

lemma connectedSession_fields:
  "outputAudioContextRef connectedSession = Some 1" "outputNodeRef connectedSession = Some 2"
  "nextStartTimeRef connectedSession = 0" "trace connectedSession
     = [ContextCreate 0, ContextCreate 1, GetUserMedia, TransportOpen 7]"
  by (simp_all add: connectedSession_def connect_goodEnv onopen_def Let_def initialSession_fields
      setConnectionState_def)

subsection \<open>connect\<close>

lemma orDefault_nonempty: "d \<noteq> [] \<Longrightarrow> orDefault v d \<noteq> []"
  by (cases v) (simp_all add: orDefault_def)

lemma connect_no_key:
  assumes "apiKey env = None \<or> apiKey env = Some []"
  shows "connect env s = s\<lparr>error := Some apiKeyMessage\<rparr>"
proof -
  have "orDefault (apiKey env) [] = []"
    using assms by (auto simp: orDefault_def)
  then show ?thesis by (simp add: connect_def)
qed

subsection \<open>connect, step by step\<close>

lemma setConnectionState_view:
  "connectionState (setConnectionState v s) = v"
  "transitions (setConnectionState v s)
     = transitions s @ (if connectionState s = v then [] else [v])"
  "trace (setConnectionState v s) = trace s"
  "error (setConnectionState v s) = error s"
  "streamRef (setConnectionState v s) = streamRef s"
  "inputAudioContextRef (setConnectionState v s) = inputAudioContextRef s"
  "outputAudioContextRef (setConnectionState v s) = outputAudioContextRef s"
  by (simp_all add: setConnectionState_def)

text \<open>
  The state at a throw of the \<open>try\<close> block: the connection state is \<open>CONNECTING\<close>, and
  every audio context created since the call is held in one of the two references.
\<close>

lemma connectTry_throws:
  assumes "\<not> inputContextOk env \<or> \<not> outputContextOk env \<or> isl (userMedia env) \<or> isl (liveConnect env)"
  shows "\<exists>thrown sp added. connectTry env s = Inl (thrown, sp)
      \<and> connectionState sp = CONNECTING
      \<and> transitions sp
          = transitions s @ (if connectionState s = CONNECTING then [] else [CONNECTING])
      \<and> trace sp = trace s @ added
      \<and> (\<forall>c. ContextCreate c \<in> set added \<longrightarrow>
            inputAudioContextRef sp = Some c \<or> outputAudioContextRef sp = Some c)
      \<and> (GetUserMedia \<in> set added \<and> \<not> isl (userMedia env) \<longrightarrow> streamRef sp \<noteq> None)
      \<and> (\<not> inputContextOk env \<or> \<not> outputContextOk env \<longrightarrow>
            thrown = Some audioContextMessage)
      \<and> (inputContextOk env \<and> outputContextOk env \<and> isl (userMedia env) \<longrightarrow>
            thrown = Some (microphoneErrorMessage (projl (userMedia env))))
      \<and> (inputContextOk env \<and> outputContextOk env \<and> \<not> isl (userMedia env) \<longrightarrow>
            thrown = projl (liveConnect env))"
proof -
  define s0 where "s0 = (setConnectionState CONNECTING s)\<lparr>error := None\<rparr>"
  have s0: "connectionState s0 = CONNECTING"
    "transitions s0 = transitions s @ (if connectionState s = CONNECTING then [] else [CONNECTING])"
    "trace s0 = trace s"
    by (simp_all add: s0_def setConnectionState_view)
  have ct: "connectTry env s =
     (case createAudioContexts env s0 of
        Inl thrown \<Rightarrow> Inl thrown
      | Inr s2 \<Rightarrow>
          (case getMicrophone env (setupOutputPipeline s2) of
             Inl thrown \<Rightarrow> Inl thrown
           | Inr s4 \<Rightarrow> openSession env s4))"
    by (simp add: connectTry_def s0_def)
  show ?thesis
  proof (cases "inputContextOk env")
    case False
    then have "connectTry env s = Inl (Some audioContextMessage, s0)"
      by (simp add: ct createAudioContexts_def)
    with False s0 show ?thesis by simp
  next
    case inp: True
    show ?thesis
    proof (cases "outputContextOk env")
      case False
      let ?sp = "s0\<lparr>inputAudioContextRef := Some (fresh s0), fresh := Suc (fresh s0),
                     trace := trace s0 @ [ContextCreate (fresh s0)]\<rparr>"
      have "connectTry env s = Inl (Some audioContextMessage, ?sp)"
        using inp False by (simp add: ct createAudioContexts_def Let_def)
      moreover have "trace ?sp = trace s @ [ContextCreate (fresh s0)]"
        by (simp add: s0)
      ultimately show ?thesis
        using False s0
        by (intro exI [of _ "Some audioContextMessage"] exI [of _ ?sp]
            exI [of _ "[ContextCreate (fresh s0)]"]) simp
    next
      case out: True
      let ?s2 = "s0\<lparr>inputAudioContextRef := Some (fresh s0),
                     outputAudioContextRef := Some (Suc (fresh s0)),
                     fresh := Suc (Suc (fresh s0)),
                     trace := trace s0 @ [ContextCreate (fresh s0), ContextCreate (Suc (fresh s0))]\<rparr>"
      have c2: "createAudioContexts env s0 = Inr ?s2"
        using inp out by (simp add: createAudioContexts_def Let_def)
      let ?s3 = "setupOutputPipeline ?s2"
      have s3: "connectionState ?s3 = CONNECTING" "transitions ?s3 = transitions s0"
        "trace ?s3 = trace s @ [ContextCreate (fresh s0), ContextCreate (Suc (fresh s0))]"
        "inputAudioContextRef ?s3 = Some (fresh s0)"
        "outputAudioContextRef ?s3 = Some (Suc (fresh s0))"
        by (simp_all add: setupOutputPipeline_def Let_def s0)
      show ?thesis
      proof (cases "userMedia env")
        case (Inl err)
        let ?sp = "?s3\<lparr>trace := trace ?s3 @ [GetUserMedia]\<rparr>"
        have "connectTry env s = Inl (Some (microphoneErrorMessage err), ?sp)"
          using Inl by (simp add: ct c2 getMicrophone_def Let_def)
        moreover have "trace ?sp = trace s @ [ContextCreate (fresh s0),
            ContextCreate (Suc (fresh s0)), GetUserMedia]"
          by (simp add: s3)
        moreover have "connectionState ?sp = CONNECTING" "transitions ?sp = transitions s0"
          "inputAudioContextRef ?sp = Some (fresh s0)"
          "outputAudioContextRef ?sp = Some (Suc (fresh s0))"
          by (simp_all add: s3)
        ultimately show ?thesis
          using Inl inp out s0(2)
          by (intro exI [of _ "Some (microphoneErrorMessage err)"] exI [of _ ?sp]
              exI [of _ "[ContextCreate (fresh s0), ContextCreate (Suc (fresh s0)), GetUserMedia]"])
            auto
      next
        case mic: (Inr u)
        with assms inp out obtain msg where lc: "liveConnect env = Inl msg"
          by (cases "liveConnect env") auto
        let ?s4 = "?s3\<lparr>trace := trace ?s3 @ [GetUserMedia], streamRef := Some (fresh ?s3),
                       fresh := Suc (fresh ?s3)\<rparr>"
        have g: "getMicrophone env ?s3 = Inr ?s4"
          using mic by (simp add: getMicrophone_def Let_def)
        let ?sp = "?s4\<lparr>trace := trace ?s4 @ [TransportOpen (fresh ?s4)],
                       sessionRef := Some (fresh ?s4), fresh := Suc (fresh ?s4)\<rparr>"
        have "connectTry env s = Inl (msg, ?sp)"
          using lc by (simp add: ct c2 g openSession_def Let_def)
        moreover have "trace ?sp = trace s @ [ContextCreate (fresh s0),
            ContextCreate (Suc (fresh s0)), GetUserMedia, TransportOpen (fresh ?s4)]"
          by (simp add: s3)
        moreover have "connectionState ?sp = CONNECTING" "transitions ?sp = transitions s0"
          "inputAudioContextRef ?sp = Some (fresh s0)"
          "outputAudioContextRef ?sp = Some (Suc (fresh s0))" "streamRef ?sp \<noteq> None"
          by (simp_all add: s3)
        ultimately show ?thesis
          using mic lc inp out s0(2)
          by (intro exI [of _ msg] exI [of _ ?sp]
              exI [of _ "[ContextCreate (fresh s0), ContextCreate (Suc (fresh s0)), GetUserMedia,
                          TransportOpen (fresh ?s4)]"])
            auto
      qed
    qed
  qed
qed

lemma microphoneErrorMessage_nonempty: "microphoneErrorMessage err \<noteq> []"
  by (simp add: microphoneErrorMessage_def)

lemma cleanup_transitions:
  "transitions (cleanup s)
     = transitions s @ (if connectionState s = DISCONNECTED then [] else [DISCONNECTED])"
  by (simp add: cleanup_eq)

subsection \<open>The transcription blocks on the queue and the two accumulators\<close>

lemma trim_Nil [simp]: "trim [] = []"
  by (simp add: trim_def)

lemma dropWhile_all:
  assumes "\<forall>x\<in>set (dropWhile P xs). P x"
  shows "\<forall>x\<in>set xs. P x"
proof -
  have "dropWhile P xs = []"
  proof (rule ccontr)
    assume n: "dropWhile P xs \<noteq> []"
    then have "\<not> P (hd (dropWhile P xs))"
      by (rule hd_dropWhile)
    moreover have "hd (dropWhile P xs) \<in> set (dropWhile P xs)"
      using n by simp
    ultimately show False using assms by blast
  qed
  then show ?thesis by (simp only: dropWhile_eq_Nil_conv)
qed

lemma trim_eq_Nil: "trim str = [] \<longleftrightarrow> (\<forall>c\<in>set str. isWhiteSpace c)"
  by (auto simp: trim_def dropWhile_eq_Nil_conv dest: set_dropWhileD dropWhile_all)

lemma trim_append_Nil: "trim (a @ b) = [] \<longleftrightarrow> trim a = [] \<and> trim b = []"
  by (auto simp: trim_eq_Nil)

lemma line_fields:
  "role (userLine now str) = User" "isPartial (userLine now str) = False"
  "text' (userLine now str) = str"
  "role (assistantLine now str) = Assistant" "isPartial (assistantLine now str) = True"
  "text' (assistantLine now str) = str"
  by (simp_all add: userLine_def assistantLine_def)

lemma outputText_None: "outputTrans m = None \<Longrightarrow> outputText m = []"
  by (simp add: outputText_def)

lemma inputText_None: "inputTrans m = None \<Longrightarrow> inputText m = []"
  by (simp add: inputText_def)

lemma inputStep_view:
  "transcriptQueue (inputStep m s) = transcriptQueue s"
  "currentInputTransRef (inputStep m s) = currentInputTransRef s @ inputText m"
  "currentOutputTransRef (inputStep m s) = currentOutputTransRef s"
  by (cases "inputTrans m"; simp add: inputStep_def inputText_def)+

lemma flushUser_view:
  "transcriptQueue (flushUser s)
     = transcriptQueue s @ (if trim (currentInputTransRef s) = [] then []
                             else [AppendUser (currentInputTransRef s)])"
  "currentInputTransRef (flushUser s)
     = (if trim (currentInputTransRef s) = [] then currentInputTransRef s else [])"
  "currentOutputTransRef (flushUser s) = currentOutputTransRef s"
  by (simp_all add: flushUser_def setTranscript_def)

lemma outputStep_view:
  "transcriptQueue (outputStep m s)
     = transcriptQueue s @
         (if outputTrans m = None then []
          else (if trim (currentInputTransRef s) = [] then []
                else [AppendUser (currentInputTransRef s)]) @ [UpsertAssistant])"
  "currentInputTransRef (outputStep m s)
     = (if outputTrans m = None \<or> trim (currentInputTransRef s) = []
        then currentInputTransRef s else [])"
  "currentOutputTransRef (outputStep m s) = currentOutputTransRef s @ outputText m"
  by (cases "outputTrans m";
      simp add: outputStep_def outputText_def Let_def setTranscript_def flushUser_view)+

lemma turnCompleteStep_view:
  "transcriptQueue (turnCompleteStep m s)
     = transcriptQueue s @
         (if turnCompleteFlag m
          then (if trim (currentInputTransRef s) = [] then []
                else [AppendUser (currentInputTransRef s)])
               @ (if currentOutputTransRef s = [] then [] else [FinalizeAssistant])
          else [])"
  "currentInputTransRef (turnCompleteStep m s)
     = (if turnCompleteFlag m \<and> trim (currentInputTransRef s) \<noteq> []
        then [] else currentInputTransRef s)"
  "currentOutputTransRef (turnCompleteStep m s)
     = (if turnCompleteFlag m then [] else currentOutputTransRef s)"
  by (simp_all add: turnCompleteStep_def Let_def setTranscript_def flushUser_view)

lemma scheduleAudio_view:
  assumes "audioDecodes dec m"
  shows "\<exists>s1. scheduleAudio dec env m s = Inr s1 \<and> transcript s1 = transcript s
      \<and> transcriptQueue s1 = transcriptQueue s
      \<and> currentInputTransRef s1 = currentInputTransRef s
      \<and> currentOutputTransRef s1 = currentOutputTransRef s"
proof (cases "base64Audio m")
  case None
  then show ?thesis by (simp add: scheduleAudio_def)
next
  case (Some b)
  show ?thesis
  proof (cases "b \<noteq> [] \<and> outputAudioContextRef s \<noteq> None \<and> outputNodeRef s \<noteq> None")
    case True
    with assms Some obtain d where "dec b = Some d"
      by (auto simp: audioDecodes_def)
    with True Some show ?thesis by (simp add: scheduleAudio_def Let_def)
  next
    case False
    with Some show ?thesis by (auto simp: scheduleAudio_def)
  qed
qed

text \<open>
  For a message that is no interruption and whose audio decodes, the queue and the
  accumulators after the handler are those after the three transcription blocks; the
  rendered log is not touched.
\<close>

lemma deliver_view:
  assumes "\<not> interruptedFlag m" "audioDecodes dec m"
  shows "transcriptQueue (deliver dec (env, m) s)
           = transcriptQueue (turnCompleteStep m (outputStep m (inputStep m s)))"
    and "currentInputTransRef (deliver dec (env, m) s)
           = currentInputTransRef (turnCompleteStep m (outputStep m (inputStep m s)))"
    and "currentOutputTransRef (deliver dec (env, m) s)
           = currentOutputTransRef (turnCompleteStep m (outputStep m (inputStep m s)))"
    and "transcript (deliver dec (env, m) s) = transcript s"
proof -
  from scheduleAudio_view [OF assms(2), of env s] obtain s1 where
    s1: "scheduleAudio dec env m s = Inr s1" "transcript s1 = transcript s"
      "transcriptQueue s1 = transcriptQueue s"
      "currentInputTransRef s1 = currentInputTransRef s"
      "currentOutputTransRef s1 = currentOutputTransRef s"
    by blast
  have d: "deliver dec (env, m) s = turnCompleteStep m (outputStep m (inputStep m s1))"
    using assms(1) s1(1) by (simp add: deliver_def onmessage_def)
  show "transcriptQueue (deliver dec (env, m) s)
           = transcriptQueue (turnCompleteStep m (outputStep m (inputStep m s)))"
    and "currentInputTransRef (deliver dec (env, m) s)
           = currentInputTransRef (turnCompleteStep m (outputStep m (inputStep m s)))"
    and "currentOutputTransRef (deliver dec (env, m) s)
           = currentOutputTransRef (turnCompleteStep m (outputStep m (inputStep m s)))"
    by (simp_all only: d turnCompleteStep_view outputStep_view inputStep_view s1)
  show "transcript (deliver dec (env, m) s) = transcript s"
    by (simp add: d transcription_frame s1)
qed


subsection \<open>Renders\<close>

lemma runQueue_simps:
  "runQueue now c [] prev = prev"
  "runQueue now c (q1 @ q2) prev = runQueue now c q2 (runQueue now c q1 prev)"
  "runQueue now c [AppendUser t] prev = prev @ [userLine now t]"
  "runQueue now c [UpsertAssistant] prev = upsertAssistant now c prev"
  "runQueue now c [FinalizeAssistant] prev = finalizeAssistant prev"
  by (simp_all add: runQueue_def runUpdater_def)

lemma runQueue_Cons: "runQueue now c (u # q) prev = runQueue now c q (runQueue now c [u] prev)"
  by (simp add: runQueue_def)


lemma render_view:
  "transcript (render now s)
     = runQueue now (currentOutputTransRef s) (transcriptQueue s) (transcript s)"
  "transcriptQueue (render now s) = []"
  "currentInputTransRef (render now s) = currentInputTransRef s"
  "currentOutputTransRef (render now s) = currentOutputTransRef s"
  by (simp_all add: render_def)


lemma upsertAssistant_simps:
  "upsertAssistant now cur [] = [assistantLine now cur]"
  "role a = Assistant \<Longrightarrow> isPartial a \<Longrightarrow> upsertAssistant now cur (prev @ [a]) = prev @ [a\<lparr>text' := cur\<rparr>]"
  "role a = User \<or> \<not> isPartial a \<Longrightarrow> upsertAssistant now cur (prev @ [a]) = prev @ [a, assistantLine now cur]"
  by (auto simp: upsertAssistant_def)

lemma finalizeAssistant_simps:
  "finalizeAssistant [] = []"
  "role a = Assistant \<Longrightarrow> finalizeAssistant (prev @ [a]) = prev @ [a\<lparr>isPartial := False\<rparr>]"
  "role a = User \<Longrightarrow> finalizeAssistant (prev @ [a]) = prev @ [a]"
  by (auto simp: finalizeAssistant_def)

lemma run_append: "run dec (xs @ ys) s = run dec ys (run dec xs s)"
  by (induction xs arbitrary: s) simp_all

lemma messagesOf_append: "messagesOf (xs @ ys) = messagesOf xs @ messagesOf ys"
  by (induction xs rule: messagesOf.induct) simp_all

lemma split_last_message:
  "messagesOf evs \<noteq> [] \<Longrightarrow>
   \<exists>mid env m tail. evs = mid @ Message env m # tail \<and> messagesOf tail = []"
proof (induction evs rule: rev_induct)
  case Nil
  then show ?case by simp
next
  case (snoc e evs)
  show ?case
  proof (cases e)
    case (Message env m)
    then have "evs @ [e] = evs @ Message env m # [] \<and> messagesOf [] = []" by simp
    then show ?thesis by blast
  next
    case (Render now)
    with snoc.prems have "messagesOf evs \<noteq> []"
      by (simp add: messagesOf_append)
    from snoc.IH [OF this] obtain mid env m tail where
      "evs = mid @ Message env m # tail" "messagesOf tail = []" by blast
    then have "evs @ [e] = mid @ Message env m # (tail @ [e]) \<and> messagesOf (tail @ [e]) = []"
      using Render by (simp add: messagesOf_append)
    then show ?thesis by blast
  qed
qed

subsection \<open>One turn, with renders at any moments\<close>

lemma pending_start: "pending (transcriptQueue s) (transcript s) s"
  unfolding pending_def by blast

lemma pending_render:
  assumes "pending q0 T0 s"
  shows "pending q0 T0 (render now s)"
  unfolding pending_def
proof (intro allI)
  fix now' c
  from assms obtain n' c' where
    "runQueue now (currentOutputTransRef s) (transcriptQueue s) (transcript s)
       = runQueue n' c' q0 T0"
    unfolding pending_def by blast
  then have "runQueue now' c (transcriptQueue (render now s)) (transcript (render now s))
       = runQueue n' c' q0 T0"
    by (simp add: render_view runQueue_simps)
  then show "\<exists>n' c'. runQueue now' c (transcriptQueue (render now s)) (transcript (render now s))
       = runQueue n' c' q0 T0"
    by blast
qed

lemma pending_same:
  assumes "pending q0 T0 s" "transcriptQueue s' = transcriptQueue s" "transcript s' = transcript s"
  shows "pending q0 T0 s'"
  using assms by (simp add: pending_def)

lemma turnInvariant_render:
  assumes "turnInvariant q0 T0 U p s"
  shows "turnInvariant q0 T0 U p (render now s)"
  unfolding turnInvariant_def
proof (intro allI)
  fix now' c
  from assms obtain n' c' base a where
    b: "runQueue now (currentOutputTransRef s) (transcriptQueue s) (transcript s) = base @ [a]"
      "turnBase (runQueue n' c' q0 T0) U base" "role a = Assistant" "isPartial a = p"
      "p \<longrightarrow> text' a = currentOutputTransRef s"
    unfolding turnInvariant_def by (metis (full_types))
  show "\<exists>n' c' base a.
      runQueue now' c (transcriptQueue (render now s)) (transcript (render now s)) = base @ [a]
      \<and> turnBase (runQueue n' c' q0 T0) U base \<and> role a = Assistant \<and> isPartial a = p
      \<and> (p \<longrightarrow> text' a = (if UpsertAssistant \<in> set (transcriptQueue (render now s)) then c
                            else currentOutputTransRef (render now s)))"
    using b by (intro exI [of _ n'] exI [of _ c'] exI [of _ base] exI [of _ a])
      (simp add: render_view runQueue_simps)
qed

text \<open>A message whose input transcription, if any, leaves the pending user text blank.\<close>

lemma blankInput_handled:
  assumes "\<not> interruptedFlag m" "audioDecodes dec m"
    and "trim (currentInputTransRef s @ inputText m) = []"
  shows "transcriptQueue (deliver dec (env, m) s)
           = transcriptQueue s @ (if outputTrans m = None then [] else [UpsertAssistant])
               @ (if turnCompleteFlag m \<and> currentOutputTransRef s @ outputText m \<noteq> []
                  then [FinalizeAssistant] else [])"
    and "currentInputTransRef (deliver dec (env, m) s) = currentInputTransRef s @ inputText m"
    and "currentOutputTransRef (deliver dec (env, m) s)
           = (if turnCompleteFlag m then [] else currentOutputTransRef s @ outputText m)"
    and "transcript (deliver dec (env, m) s) = transcript s"
  using assms(3)
  by (simp_all add: deliver_view [OF assms(1,2)] turnCompleteStep_view outputStep_view
      inputStep_view)

lemma turnInvariant_blankInput:
  assumes "\<not> interruptedFlag m" "audioDecodes dec m"
    and "trim (currentInputTransRef s @ inputText m) = []"
    and "turnInvariant q0 T0 U True s"
  shows "turnInvariant q0 T0 U
           (\<not> turnCompleteFlag m \<or> currentOutputTransRef s @ outputText m = [])
           (deliver dec (env, m) s)"
  unfolding turnInvariant_def
proof (intro allI)
  fix now c
  let ?s' = "deliver dec (env, m) s"
  let ?p = "\<not> turnCompleteFlag m \<or> currentOutputTransRef s @ outputText m = []"
  note h = blankInput_handled [OF assms(1-3), of env]
  from assms(4) obtain n' c' base a where
    b: "runQueue now c (transcriptQueue s) (transcript s) = base @ [a]"
      "turnBase (runQueue n' c' q0 T0) U base" "role a = Assistant" "isPartial a"
      "text' a = (if UpsertAssistant \<in> set (transcriptQueue s) then c else currentOutputTransRef s)"
    unfolding turnInvariant_def by (metis (full_types))
  define a1 where "a1 = (if outputTrans m = None then a else a\<lparr>text' := c\<rparr>)"
  have a1: "role a1 = Assistant" "isPartial a1"
    using b(3,4) by (simp_all add: a1_def)
  have up: "runQueue now c (if outputTrans m = None then [] else [UpsertAssistant]) (base @ [a])
              = base @ [a1]"
    using b(3,4) by (simp add: a1_def runQueue_simps upsertAssistant_simps(2))
  have t1: "?p \<Longrightarrow> text' a1 = (if UpsertAssistant \<in> set (transcriptQueue ?s') then c
                                  else currentOutputTransRef ?s')"
    using b(5) by (auto simp: a1_def h outputText_None)
  define a2 where "a2 = (if ?p then a1 else a1\<lparr>isPartial := False\<rparr>)"
  have fin: "runQueue now c (if turnCompleteFlag m \<and> currentOutputTransRef s @ outputText m \<noteq> []
                  then [FinalizeAssistant] else []) (base @ [a1]) = base @ [a2]"
    using a1 by (auto simp: a2_def runQueue_simps finalizeAssistant_simps(2))
  have q: "runQueue now c (transcriptQueue ?s') (transcript ?s') = base @ [a2]"
    by (simp only: h runQueue_simps(2) b(1) up fin)
  have a2: "role a2 = Assistant" "isPartial a2 = ?p"
    using a1 by (auto simp: a2_def)
  have t2: "?p \<longrightarrow> text' a2 = (if UpsertAssistant \<in> set (transcriptQueue ?s') then c
                                  else currentOutputTransRef ?s')"
    using t1 by (simp add: a2_def)
  show "\<exists>n' c' base a. runQueue now c (transcriptQueue ?s') (transcript ?s') = base @ [a]
      \<and> turnBase (runQueue n' c' q0 T0) U base \<and> role a = Assistant \<and> isPartial a = ?p
      \<and> (?p \<longrightarrow> text' a = (if UpsertAssistant \<in> set (transcriptQueue ?s') then c
                            else currentOutputTransRef ?s'))"
    using q b(2) a2 t2 by blast
qed

text \<open>The first message of the turn that carries an output delta.\<close>

lemma firstOutput_handled:
  assumes "\<not> interruptedFlag m" "audioDecodes dec m" "outputTrans m \<noteq> None"
  shows "transcriptQueue (deliver dec (env, m) s)
           = transcriptQueue s
               @ (if trim (currentInputTransRef s @ inputText m) = [] then []
                  else [AppendUser (currentInputTransRef s @ inputText m)])
               @ [UpsertAssistant]
               @ (if turnCompleteFlag m \<and> currentOutputTransRef s @ outputText m \<noteq> []
                  then [FinalizeAssistant] else [])"
    and "currentInputTransRef (deliver dec (env, m) s)
           = (if trim (currentInputTransRef s @ inputText m) = []
              then currentInputTransRef s @ inputText m else [])"
    and "currentOutputTransRef (deliver dec (env, m) s)
           = (if turnCompleteFlag m then [] else currentOutputTransRef s @ outputText m)"
    and "transcript (deliver dec (env, m) s) = transcript s"
proof -
  let ?s2 = "outputStep m (inputStep m s)"
  let ?U = "currentInputTransRef s @ inputText m"
  have q2: "transcriptQueue ?s2
      = transcriptQueue s @ (if trim ?U = [] then [] else [AppendUser ?U]) @ [UpsertAssistant]"
    by (simp add: outputStep_view inputStep_view assms(3))
  have i2: "currentInputTransRef ?s2 = (if trim ?U = [] then ?U else [])"
    by (simp add: outputStep_view inputStep_view assms(3))
  have t2: "trim (currentInputTransRef ?s2) = []"
    by (simp add: i2)
  have o2: "currentOutputTransRef ?s2 = currentOutputTransRef s @ outputText m"
    by (simp add: outputStep_view inputStep_view)
  show "transcriptQueue (deliver dec (env, m) s)
           = transcriptQueue s
               @ (if trim ?U = [] then [] else [AppendUser ?U])
               @ [UpsertAssistant]
               @ (if turnCompleteFlag m \<and> currentOutputTransRef s @ outputText m \<noteq> []
                  then [FinalizeAssistant] else [])"
    by (simp add: deliver_view [OF assms(1,2)] turnCompleteStep_view q2 t2 o2)
  show "currentInputTransRef (deliver dec (env, m) s) = (if trim ?U = [] then ?U else [])"
    using t2 by (simp add: deliver_view [OF assms(1,2)] turnCompleteStep_view i2)
  show "currentOutputTransRef (deliver dec (env, m) s)
           = (if turnCompleteFlag m then [] else currentOutputTransRef s @ outputText m)"
    by (simp add: deliver_view [OF assms(1,2)] turnCompleteStep_view o2)
  show "transcript (deliver dec (env, m) s) = transcript s"
    by (rule deliver_view [OF assms(1,2)])
qed

lemma upsertAssistant_fresh:
  "\<not> endsWithPartialAssistant prev \<Longrightarrow> upsertAssistant now c prev = prev @ [assistantLine now c]"
  by (auto simp: upsertAssistant_def endsWithPartialAssistant_def)

lemma turnInvariant_first:
  assumes "\<not> interruptedFlag m" "audioDecodes dec m" "outputTrans m \<noteq> None"
    and "pending q0 T0 s"
    and "trim (currentInputTransRef s @ inputText m) \<noteq> []
         \<or> (\<forall>n c. \<not> endsWithPartialAssistant (runQueue n c q0 T0))"
  shows "turnInvariant q0 T0 (currentInputTransRef s @ inputText m)
           (\<not> turnCompleteFlag m \<or> currentOutputTransRef s @ outputText m = [])
           (deliver dec (env, m) s)"
  unfolding turnInvariant_def
proof (intro allI)
  fix now c
  let ?s' = "deliver dec (env, m) s"
  let ?U = "currentInputTransRef s @ inputText m"
  let ?p = "\<not> turnCompleteFlag m \<or> currentOutputTransRef s @ outputText m = []"
  note h = firstOutput_handled [OF assms(1-3), of env s]
  from assms(4) obtain n' c' where
    old: "runQueue now c (transcriptQueue s) (transcript s) = runQueue n' c' q0 T0"
    unfolding pending_def by blast
  let ?old = "runQueue n' c' q0 T0"
  define base where "base = ?old @ (if trim ?U = [] then [] else [userLine now ?U])"
  have tb: "turnBase ?old ?U base"
    by (simp add: turnBase_def base_def line_fields)
  have fl: "runQueue now c (if trim ?U = [] then [] else [AppendUser ?U]) ?old = base"
    by (simp add: base_def runQueue_simps)
  have "\<not> endsWithPartialAssistant base"
    using assms(5) by (auto simp: base_def line_fields endsWithPartialAssistant_def)
  then have up: "runQueue now c [UpsertAssistant] base = base @ [assistantLine now c]"
    by (simp add: runQueue_simps upsertAssistant_fresh)
  define a where "a = (if ?p then assistantLine now c else (assistantLine now c)\<lparr>isPartial := False\<rparr>)"
  have fin: "runQueue now c (if turnCompleteFlag m \<and> currentOutputTransRef s @ outputText m \<noteq> []
                  then [FinalizeAssistant] else []) (base @ [assistantLine now c]) = base @ [a]"
    by (auto simp: a_def runQueue_simps finalizeAssistant_simps(2) line_fields)
  have q: "runQueue now c (transcriptQueue ?s') (transcript ?s') = base @ [a]"
    by (simp only: h runQueue_simps(2) old fl up fin)
  have a: "role a = Assistant" "isPartial a = ?p" "?p \<longrightarrow> text' a = c"
    by (auto simp: a_def line_fields)
  have "UpsertAssistant \<in> set (transcriptQueue ?s')"
    by (simp add: h)
  with q tb a show "\<exists>n' c' base a. runQueue now c (transcriptQueue ?s') (transcript ?s') = base @ [a]
      \<and> turnBase (runQueue n' c' q0 T0) ?U base \<and> role a = Assistant \<and> isPartial a = ?p
      \<and> (?p \<longrightarrow> text' a = (if UpsertAssistant \<in> set (transcriptQueue ?s') then c
                            else currentOutputTransRef ?s'))"
    by (intro exI [of _ n'] exI [of _ c'] exI [of _ base] exI [of _ a]) simp
qed

text \<open>The phases of a turn over lists of events.\<close>

lemma noOutput_phase:
  assumes "\<forall>m\<in>set (messagesOf evs). \<not> interruptedFlag m \<and> audioDecodes dec m
             \<and> outputTrans m = None \<and> \<not> turnCompleteFlag m"
    and "pending q0 T0 s"
  shows "pending q0 T0 (run dec evs s)
       \<and> currentInputTransRef (run dec evs s)
           = currentInputTransRef s @ concat (map inputText (messagesOf evs))
       \<and> currentOutputTransRef (run dec evs s) = currentOutputTransRef s"
  using assms
proof (induction evs arbitrary: s)
  case Nil
  then show ?case by simp
next
  case (Cons e evs)
  show ?case
  proof (cases e)
    case (Message env m)
    with Cons.prems(1) have m: "\<not> interruptedFlag m" "audioDecodes dec m"
      and n: "outputTrans m = None" "\<not> turnCompleteFlag m"
      and r: "\<forall>m\<in>set (messagesOf evs). \<not> interruptedFlag m \<and> audioDecodes dec m
             \<and> outputTrans m = None \<and> \<not> turnCompleteFlag m"
      by simp_all
    let ?s' = "deliver dec (env, m) s"
    have v: "transcriptQueue ?s' = transcriptQueue s" "transcript ?s' = transcript s"
      "currentInputTransRef ?s' = currentInputTransRef s @ inputText m"
      "currentOutputTransRef ?s' = currentOutputTransRef s"
      using n
      by (simp_all add: deliver_view [OF m] turnCompleteStep_view outputStep_view inputStep_view
          outputText_None)
    from Cons.IH [OF r pending_same [OF Cons.prems(2) v(1,2)]] show ?thesis
      by (simp add: Message v(3,4))
  next
    case (Render now)
    from Cons.prems(1) Render have r: "\<forall>m\<in>set (messagesOf evs). \<not> interruptedFlag m
        \<and> audioDecodes dec m \<and> outputTrans m = None \<and> \<not> turnCompleteFlag m"
      by simp
    from Cons.IH [OF r pending_render [OF Cons.prems(2)]] show ?thesis
      by (simp add: Render render_view(3,4))
  qed
qed

lemma blankInput_phase:
  assumes "\<forall>m\<in>set (messagesOf evs). \<not> interruptedFlag m \<and> audioDecodes dec m
             \<and> trim (inputText m) = [] \<and> \<not> turnCompleteFlag m"
    and "trim (currentInputTransRef s) = []"
    and "turnInvariant q0 T0 U True s"
  shows "turnInvariant q0 T0 U True (run dec evs s)
       \<and> currentInputTransRef (run dec evs s)
           = currentInputTransRef s @ concat (map inputText (messagesOf evs))
       \<and> trim (currentInputTransRef (run dec evs s)) = []
       \<and> currentOutputTransRef (run dec evs s)
           = currentOutputTransRef s @ concat (map outputText (messagesOf evs))"
  using assms
proof (induction evs arbitrary: s)
  case Nil
  then show ?case by simp
next
  case (Cons e evs)
  show ?case
  proof (cases e)
    case (Message env m)
    with Cons.prems(1) have m: "\<not> interruptedFlag m" "audioDecodes dec m"
      and b: "trim (inputText m) = []"
      and n: "\<not> turnCompleteFlag m"
      and r: "\<forall>m\<in>set (messagesOf evs). \<not> interruptedFlag m \<and> audioDecodes dec m
             \<and> trim (inputText m) = [] \<and> \<not> turnCompleteFlag m"
      by simp_all
    let ?s' = "deliver dec (env, m) s"
    have t: "trim (currentInputTransRef s @ inputText m) = []"
      using Cons.prems(2) b by (simp add: trim_append_Nil)
    note h = blankInput_handled [OF m t, of env]
    have i: "turnInvariant q0 T0 U True ?s'"
      using turnInvariant_blankInput [OF m t Cons.prems(3), of env] n by simp
    have c: "trim (currentInputTransRef ?s') = []"
      using t by (simp add: h)
    note IH = Cons.IH [OF r c i]
    have ih: "turnInvariant q0 T0 U True (run dec evs ?s')"
      "currentInputTransRef (run dec evs ?s')
         = currentInputTransRef ?s' @ concat (map inputText (messagesOf evs))"
      "trim (currentInputTransRef (run dec evs ?s')) = []"
      "currentOutputTransRef (run dec evs ?s')
         = currentOutputTransRef ?s' @ concat (map outputText (messagesOf evs))"
      by (rule IH [THEN conjunct1], rule IH [THEN conjunct2, THEN conjunct1],
          rule IH [THEN conjunct2, THEN conjunct2, THEN conjunct1],
          rule IH [THEN conjunct2, THEN conjunct2, THEN conjunct2])
    show ?thesis
      unfolding Message run.simps step.simps messagesOf.simps
    proof (intro conjI)
      show "turnInvariant q0 T0 U True (run dec evs ?s')" by (rule ih(1))
      show "trim (currentInputTransRef (run dec evs ?s')) = []" by (rule ih(3))
      show "currentInputTransRef (run dec evs ?s')
              = currentInputTransRef s @ concat (map inputText (m # messagesOf evs))"
        by (simp add: ih(2) h)
      show "currentOutputTransRef (run dec evs ?s')
              = currentOutputTransRef s @ concat (map outputText (m # messagesOf evs))"
        using n by (simp add: ih(4) h)
    qed
  next
    case (Render now)
    from Cons.prems(1) Render have r: "\<forall>m\<in>set (messagesOf evs). \<not> interruptedFlag m
        \<and> audioDecodes dec m \<and> trim (inputText m) = [] \<and> \<not> turnCompleteFlag m"
      by simp
    have c: "trim (currentInputTransRef (render now s)) = []"
      using Cons.prems(2) by (simp add: render_view)
    note IH = Cons.IH [OF r c turnInvariant_render [OF Cons.prems(3)]]
    show ?thesis
      unfolding Render run.simps step.simps messagesOf.simps
    proof (intro conjI)
      show "turnInvariant q0 T0 U True (run dec evs (render now s))"
        by (rule IH [THEN conjunct1])
      show "trim (currentInputTransRef (run dec evs (render now s))) = []"
        by (rule IH [THEN conjunct2, THEN conjunct2, THEN conjunct1])
      show "currentInputTransRef (run dec evs (render now s))
              = currentInputTransRef s @ concat (map inputText (messagesOf evs))"
        using IH [THEN conjunct2, THEN conjunct1] by (simp add: render_view(3))
      show "currentOutputTransRef (run dec evs (render now s))
              = currentOutputTransRef s @ concat (map outputText (messagesOf evs))"
        using IH [THEN conjunct2, THEN conjunct2, THEN conjunct2] by (simp add: render_view(4))
    qed
  qed
qed

lemma renders_phase:
  assumes "messagesOf evs = []" and "turnInvariant q0 T0 U p s"
  shows "turnInvariant q0 T0 U p (run dec evs s)
       \<and> currentInputTransRef (run dec evs s) = currentInputTransRef s
       \<and> currentOutputTransRef (run dec evs s) = currentOutputTransRef s"
  using assms
proof (induction evs arbitrary: s)
  case Nil
  then show ?case by simp
next
  case (Cons e evs)
  show ?case
  proof (cases e)
    case (Message env m)
    with Cons.prems(1) show ?thesis by simp
  next
    case (Render now)
    with Cons.prems(1) have r: "messagesOf evs = []" by simp
    from Cons.IH [OF r turnInvariant_render [OF Cons.prems(2)]] show ?thesis
      by (simp add: Render render_view(3,4))
  qed
qed

text \<open>What the invariant says about the log at the next render.\<close>

lemma turnInvariant_shown:
  assumes "turnInvariant q0 T0 U p s"
  shows "\<exists>n' c' base a. transcript (render now s) = base @ [a]
      \<and> turnBase (runQueue n' c' q0 T0) U base
      \<and> role a = Assistant \<and> isPartial a = p \<and> (p \<longrightarrow> text' a = currentOutputTransRef s)"
proof -
  from assms obtain n' c' base a where
    "runQueue now (currentOutputTransRef s) (transcriptQueue s) (transcript s) = base @ [a]"
    "turnBase (runQueue n' c' q0 T0) U base" "role a = Assistant" "isPartial a = p"
    "p \<longrightarrow> text' a = currentOutputTransRef s"
    unfolding turnInvariant_def by (metis (full_types))
  then show ?thesis by (simp add: render_view) blast
qed

subsection \<open>Transcription: closed forms for messages and sample runs\<close>


lemma turnBase_shape:
  assumes "turnBase old U base"
  shows "\<exists>us. base = old @ us
      \<and> (if trim U = [] then us = []
          else (\<exists>u. us = [u] \<and> role u = User \<and> text' u = U \<and> \<not> isPartial u))"
proof (cases "trim U = []")
  case True
  with assms have "base = old @ []" by (simp add: turnBase_def)
  with True show ?thesis by (intro exI [of _ "[]"]) simp
next
  case False
  with assms obtain u where "base = old @ [u]" "role u = User" "text' u = U" "\<not> isPartial u"
    by (auto simp: turnBase_def)
  with False show ?thesis by (intro exI [of _ "[u]"]) simp
qed

lemma turnComplete_handled:
  assumes "\<not> interruptedFlag m" "audioDecodes dec m" "turnCompleteFlag m"
  shows "transcriptQueue (deliver dec (env, m) s)
           = transcriptQueue s
               @ (if trim (currentInputTransRef s @ inputText m) = [] then []
                  else [AppendUser (currentInputTransRef s @ inputText m)])
               @ (if outputTrans m = None then [] else [UpsertAssistant])
               @ (if currentOutputTransRef s @ outputText m = [] then []
                  else [FinalizeAssistant])"
    and "currentInputTransRef (deliver dec (env, m) s)
           = (if trim (currentInputTransRef s @ inputText m) = []
              then currentInputTransRef s @ inputText m else [])"
    and "currentOutputTransRef (deliver dec (env, m) s) = []"
    and "transcript (deliver dec (env, m) s) = transcript s"
  using assms(3)
  by (cases "outputTrans m = None"; cases "trim (currentInputTransRef s @ inputText m) = []";
      simp add: deliver_view [OF assms(1,2)] turnCompleteStep_view outputStep_view
        inputStep_view outputText_None)+

lemma noOutput_handled:
  assumes "\<not> interruptedFlag m" "audioDecodes dec m" "outputTrans m = None"
    "\<not> turnCompleteFlag m"
  shows "transcriptQueue (deliver dec (env, m) s) = transcriptQueue s"
    and "currentInputTransRef (deliver dec (env, m) s) = currentInputTransRef s @ inputText m"
    and "currentOutputTransRef (deliver dec (env, m) s) = currentOutputTransRef s"
    and "transcript (deliver dec (env, m) s) = transcript s"
  using assms(3,4)
  by (simp_all add: deliver_view [OF assms(1,2)] turnCompleteStep_view outputStep_view
      inputStep_view outputText_None)





lemma sample_facts:
  "\<not> interruptedFlag (inputDelta str)" "\<not> turnCompleteFlag (inputDelta str)"
  "inputTrans (inputDelta str) \<noteq> None" "outputTrans (inputDelta str) = None"
  "inputText (inputDelta str) = str" "outputText (inputDelta str) = []"
  "audioDecodes dec (inputDelta str)"
  "\<not> interruptedFlag (outputDelta str)" "\<not> turnCompleteFlag (outputDelta str)"
  "inputTrans (outputDelta str) = None" "outputTrans (outputDelta str) \<noteq> None"
  "inputText (outputDelta str) = []" "outputText (outputDelta str) = str"
  "audioDecodes dec (outputDelta str)"
  "\<not> interruptedFlag turnCompleteMessage" "turnCompleteFlag turnCompleteMessage"
  "inputTrans turnCompleteMessage = None" "outputTrans turnCompleteMessage = None"
  "inputText turnCompleteMessage = []" "outputText turnCompleteMessage = []"
  "audioDecodes dec turnCompleteMessage"
  "\<not> interruptedFlag (audioMessage b)" "\<not> turnCompleteFlag (audioMessage b)"
  "inputTrans (audioMessage b) = None" "outputTrans (audioMessage b) = None"
  "inputText (audioMessage b) = []" "outputText (audioMessage b) = []"
  "audioDecodes halfSecond (audioMessage b)"
  by (simp_all add: message_defs inputText_def outputText_def orDefault_def audioDecodes_def
      halfSecond_def)

lemma inputDelta_handled:
  "transcriptQueue (deliver dec (env, inputDelta str) s) = transcriptQueue s"
  "currentInputTransRef (deliver dec (env, inputDelta str) s) = currentInputTransRef s @ str"
  "currentOutputTransRef (deliver dec (env, inputDelta str) s) = currentOutputTransRef s"
  "transcript (deliver dec (env, inputDelta str) s) = transcript s"
  by (simp_all add: noOutput_handled sample_facts)

lemma outputDelta_handled:
  "transcriptQueue (deliver dec (env, outputDelta str) s)
     = transcriptQueue s
         @ (if trim (currentInputTransRef s) = [] then []
            else [AppendUser (currentInputTransRef s)]) @ [UpsertAssistant]"
  "currentInputTransRef (deliver dec (env, outputDelta str) s)
     = (if trim (currentInputTransRef s) = [] then currentInputTransRef s else [])"
  "currentOutputTransRef (deliver dec (env, outputDelta str) s) = currentOutputTransRef s @ str"
  "transcript (deliver dec (env, outputDelta str) s) = transcript s"
  by (simp_all add: firstOutput_handled sample_facts)

lemma turnCompleteMessage_handled:
  "transcriptQueue (deliver dec (env, turnCompleteMessage) s)
     = transcriptQueue s
         @ (if trim (currentInputTransRef s) = [] then []
            else [AppendUser (currentInputTransRef s)])
         @ (if currentOutputTransRef s = [] then [] else [FinalizeAssistant])"
  "currentInputTransRef (deliver dec (env, turnCompleteMessage) s)
     = (if trim (currentInputTransRef s) = [] then currentInputTransRef s else [])"
  "currentOutputTransRef (deliver dec (env, turnCompleteMessage) s) = []"
  "transcript (deliver dec (env, turnCompleteMessage) s) = transcript s"
  by (simp_all add: turnComplete_handled sample_facts)

lemma line_updates:
  "(assistantLine now a)\<lparr>text' := b\<rparr> = assistantLine now b"
  "(userLine now a = assistantLine now' b) = False"
  by (simp_all add: assistantLine_def userLine_def)

lemma trim_samples:
  "trim ''hello'' \<noteq> []" "trim ''b'' \<noteq> []" "trim '' '' = []" "trim ''hi'' \<noteq> []"
  by (simp_all add: trim_def isWhiteSpace_def)

lemmas run_samples = inputDelta_handled outputDelta_handled turnCompleteMessage_handled
  render_view runQueue_def runUpdater_def upsertAssistant_def finalizeAssistant_def line_fields
  line_updates trim_samples initialSession_fields




lemma interrupted_handled:
  "transcriptQueue (deliver dec (env, interruptedMessage) s) = transcriptQueue s"
  "currentInputTransRef (deliver dec (env, interruptedMessage) s) = currentInputTransRef s"
  "currentOutputTransRef (deliver dec (env, interruptedMessage) s) = []"
  "transcript (deliver dec (env, interruptedMessage) s) = transcript s"
  by (simp_all add: deliver_def onmessage_interrupted interruptedFlag_interruptedMessage
      interrupt_fields)

lemma unrendered_upsert_reads_cleared_accumulator:
  "transcript (run halfSecond
      [Message (clockAt 0) (outputDelta ''Hel''), Message (clockAt 0) (outputDelta ''lo''),
       Message (clockAt 0) turnCompleteMessage, Render 1] initialSession)
     = [(assistantLine 1 [])\<lparr>isPartial := False\<rparr>]"
  by (simp add: run_samples)

lemma partial_left_by_interruption_is_overwritten:
  "transcript (run halfSecond
      [Message (clockAt 0) (outputDelta ''Hel''), Render 1,
       Message (clockAt 0) interruptedMessage,
       Message (clockAt 0) (outputDelta ''X''), Render 2] initialSession)
     = [assistantLine 1 ''X'']"
  by (simp add: run_samples interrupted_handled)

section \<open>The claims\<close>

text \<open>
  C1, as amended. Take the events of one turn: messages that are handled to their end (no
  interruption, audio that decodes), with renders of React at any moments between them.
  \<open>mF\<close> is the first message that carries an output delta, \<open>pre\<close> are the events
  before it and \<open>rest\<close> those after it. Let every input delta that arrives after
  \<open>mF\<close> be blank, let the user text \<open>U\<close> (the accumulator at the start and the input
  deltas up to and including \<open>mF\<close>) hold a non-whitespace character, and let
  turn-complete come with the last message and no earlier one. Then the handler of
  \<open>mF\<close> queues the user line and, next, the upsert of the assistant line. At a render
  after \<open>mF\<close>, and at a render after the whole turn, the log is the log that the
  updaters waiting at the start of the turn give (the log of the start if none waits),
  then the finalized user line with text \<open>U\<close>, then one assistant line. At the end of
  the turn that line is finalized unless all output text of the turn is empty, the
  assistant accumulator is empty, and the user accumulator holds the blank deltas that
  came after \<open>mF\<close>. Nothing is said about the text of the assistant line: the upsert
  reads the accumulator when React runs it, which may be after turn-complete emptied it.
\<close>

theorem user_line_precedes_reply:
  assumes plain: "\<forall>m\<in>set (messagesOf pre @ mF # messagesOf rest).
            \<not> interruptedFlag m \<and> audioDecodes dec m"
    and pre: "\<forall>m\<in>set (messagesOf pre). outputTrans m = None \<and> \<not> turnCompleteFlag m"
    and first: "outputTrans mF \<noteq> None"
    and rest: "\<forall>m\<in>set (messagesOf rest). trim (inputText m) = []"
    and early: "\<forall>m\<in>set (butlast (mF # messagesOf rest)). \<not> turnCompleteFlag m"
    and final: "turnCompleteFlag (last (mF # messagesOf rest))"
    and said: "trim (currentInputTransRef s @ concat (map inputText (messagesOf pre @ [mF]))) \<noteq> []"
  shows "\<exists>q q' n1 c1 u1 a1 n c u a.
      transcriptQueue (run dec (pre @ [Message envF mF]) s)
        = q @ AppendUser (currentInputTransRef s @ concat (map inputText (messagesOf pre @ [mF])))
            # UpsertAssistant # q'
      \<and> transcript (render now1 (run dec (pre @ [Message envF mF]) s))
          = runQueue n1 c1 (transcriptQueue s) (transcript s) @ [u1, a1]
      \<and> role u1 = User \<and> \<not> isPartial u1 \<and> role a1 = Assistant
      \<and> text' u1 = currentInputTransRef s @ concat (map inputText (messagesOf pre @ [mF]))
      \<and> transcript (render now (run dec (pre @ Message envF mF # rest) s))
          = runQueue n c (transcriptQueue s) (transcript s) @ [u, a]
      \<and> role u = User \<and> \<not> isPartial u \<and> role a = Assistant
      \<and> text' u = currentInputTransRef s @ concat (map inputText (messagesOf pre @ [mF]))
      \<and> isPartial a
          = (currentOutputTransRef s @ concat (map outputText (mF # messagesOf rest)) = [])
      \<and> currentInputTransRef (run dec (pre @ Message envF mF # rest) s)
          = concat (map inputText (messagesOf rest))
      \<and> currentOutputTransRef (run dec (pre @ Message envF mF # rest) s) = []"
proof -
  let ?q0 = "transcriptQueue s"
  let ?T0 = "transcript s"
  let ?s1 = "run dec pre s"
  let ?s2 = "deliver dec (envF, mF) ?s1"
  let ?U = "currentInputTransRef s @ concat (map inputText (messagesOf pre @ [mF]))"
  let ?O2 = "currentOutputTransRef s @ outputText mF"
  have "\<forall>m\<in>set (messagesOf pre). \<not> interruptedFlag m \<and> audioDecodes dec m
             \<and> outputTrans m = None \<and> \<not> turnCompleteFlag m"
    using plain pre by simp
  from noOutput_phase [OF this pending_start]
  have 1: "pending ?q0 ?T0 ?s1"
    "currentInputTransRef ?s1 = currentInputTransRef s @ concat (map inputText (messagesOf pre))"
    "currentOutputTransRef ?s1 = currentOutputTransRef s"
    by simp_all
  have m: "\<not> interruptedFlag mF" "audioDecodes dec mF" "outputTrans mF \<noteq> None"
    using plain first by simp_all
  have U: "currentInputTransRef ?s1 @ inputText mF = ?U"
    by (simp add: 1)
  have p: "trim (currentInputTransRef ?s1 @ inputText mF) \<noteq> []"
    unfolding U by (rule said)
  note h = firstOutput_handled [OF m, of envF ?s1]
  have 2: "transcriptQueue ?s2 = transcriptQueue ?s1 @ AppendUser ?U # UpsertAssistant
             # (if turnCompleteFlag mF \<and> ?O2 \<noteq> [] then [FinalizeAssistant] else [])"
    "currentInputTransRef ?s2 = []"
    "currentOutputTransRef ?s2 = (if turnCompleteFlag mF then [] else ?O2)"
    using p by (simp_all add: h 1(3) U)
  have "turnInvariant ?q0 ?T0 (currentInputTransRef ?s1 @ inputText mF)
          (\<not> turnCompleteFlag mF \<or> currentOutputTransRef ?s1 @ outputText mF = []) ?s2"
    using p by (intro turnInvariant_first [OF m 1(1)]) simp
  then have i2: "turnInvariant ?q0 ?T0 ?U (\<not> turnCompleteFlag mF \<or> ?O2 = []) ?s2"
    by (simp only: U 1(3))
  have "\<exists>p. turnInvariant ?q0 ?T0 ?U p (run dec rest ?s2)
      \<and> p = (currentOutputTransRef s @ concat (map outputText (mF # messagesOf rest)) = [])
      \<and> currentInputTransRef (run dec rest ?s2) = concat (map inputText (messagesOf rest))
      \<and> currentOutputTransRef (run dec rest ?s2) = []"
  proof (cases "messagesOf rest = []")
    case True
    with final have tc: "turnCompleteFlag mF" by simp
    from renders_phase [OF True i2, of dec] tc 2 True show ?thesis
      by simp
  next
    case False
    from split_last_message [OF this] obtain mid envL mL tail where
      r: "rest = mid @ Message envL mL # tail" "messagesOf tail = []"
      by blast
    have ms: "messagesOf rest = messagesOf mid @ [mL]"
      by (simp add: r messagesOf_append)
    from early ms have ntc: "\<not> turnCompleteFlag mF" "\<forall>m\<in>set (messagesOf mid). \<not> turnCompleteFlag m"
      by (simp_all add: butlast_append)
    from final ms have tcl: "turnCompleteFlag mL" by simp
    have midp: "\<forall>m\<in>set (messagesOf mid). \<not> interruptedFlag m \<and> audioDecodes dec m
             \<and> trim (inputText m) = [] \<and> \<not> turnCompleteFlag m"
      using plain rest ntc ms by simp
    have mL: "\<not> interruptedFlag mL" "audioDecodes dec mL" and bL: "trim (inputText mL) = []"
      using plain rest ms by simp_all
    have i2': "turnInvariant ?q0 ?T0 ?U True ?s2"
      using i2 ntc by simp
    have c2: "trim (currentInputTransRef ?s2) = []"
      by (simp add: 2)
    let ?s3 = "run dec mid ?s2"
    let ?O3 = "?O2 @ concat (map outputText (messagesOf mid))"
    note ph = blankInput_phase [OF midp c2 i2']
    have 3: "turnInvariant ?q0 ?T0 ?U True ?s3"
      "currentInputTransRef ?s3 = concat (map inputText (messagesOf mid))"
      "trim (currentInputTransRef ?s3) = []"
      "currentOutputTransRef ?s3 = ?O3"
      using ph [THEN conjunct1] ph [THEN conjunct2, THEN conjunct1]
        ph [THEN conjunct2, THEN conjunct2, THEN conjunct1]
        ph [THEN conjunct2, THEN conjunct2, THEN conjunct2] ntc
      by (simp_all add: 2)
    have c3: "trim (currentInputTransRef ?s3 @ inputText mL) = []"
      using 3(3) bL by (simp add: trim_append_Nil)
    let ?s4 = "deliver dec (envL, mL) ?s3"
    from turnInvariant_blankInput [OF mL c3 3(1), of envL] tcl
    have i4: "turnInvariant ?q0 ?T0 ?U (?O3 @ outputText mL = []) ?s4"
      by (simp add: 3(4))
    note h4 = blankInput_handled [OF mL c3, of envL]
    have 4: "currentInputTransRef ?s4 = concat (map inputText (messagesOf mid)) @ inputText mL"
      "currentOutputTransRef ?s4 = []"
      using tcl by (simp_all add: h4 3(2))
    from renders_phase [OF r(2) i4, of dec] 4
    have "turnInvariant ?q0 ?T0 ?U (?O3 @ outputText mL = []) (run dec tail ?s4)
        \<and> currentInputTransRef (run dec tail ?s4)
            = concat (map inputText (messagesOf mid)) @ inputText mL
        \<and> currentOutputTransRef (run dec tail ?s4) = []"
      by simp
    then show ?thesis
      by (simp add: r run_append messagesOf_append)
  qed
  then obtain pf where f: "turnInvariant ?q0 ?T0 ?U pf (run dec rest ?s2)"
    "pf = (currentOutputTransRef s @ concat (map outputText (mF # messagesOf rest)) = [])"
    "currentInputTransRef (run dec rest ?s2) = concat (map inputText (messagesOf rest))"
    "currentOutputTransRef (run dec rest ?s2) = []"
    by blast
  from turnInvariant_shown [OF i2, of now1] obtain n1 c1 base1 a1 where
    s1: "transcript (render now1 ?s2) = base1 @ [a1]" "turnBase (runQueue n1 c1 ?q0 ?T0) ?U base1"
      "role a1 = Assistant"
    by blast
  from s1(2) said obtain u1 where u1: "base1 = runQueue n1 c1 ?q0 ?T0 @ [u1]" "role u1 = User"
    "text' u1 = ?U" "\<not> isPartial u1"
    by (auto simp: turnBase_def)
  from turnInvariant_shown [OF f(1), of now] obtain n c base a where
    sf: "transcript (render now (run dec rest ?s2)) = base @ [a]"
      "turnBase (runQueue n c ?q0 ?T0) ?U base"
      "role a = Assistant" "isPartial a = pf"
    by blast
  from sf(2) said obtain u where u: "base = runQueue n c ?q0 ?T0 @ [u]" "role u = User"
    "text' u = ?U" "\<not> isPartial u"
    by (auto simp: turnBase_def)
  have r1: "run dec (pre @ [Message envF mF]) s = ?s2"
    by (simp add: run_append)
  have r2: "run dec (pre @ Message envF mF # rest) s = run dec rest ?s2"
    by (simp add: run_append)
  show ?thesis
    unfolding r1 r2
  proof (intro exI conjI)
    show "transcriptQueue ?s2 = transcriptQueue ?s1 @ AppendUser ?U # UpsertAssistant
             # (if turnCompleteFlag mF \<and> ?O2 \<noteq> [] then [FinalizeAssistant] else [])"
      by (rule 2(1))
    show "transcript (render now1 ?s2) = runQueue n1 c1 ?q0 ?T0 @ [u1, a1]"
      by (simp add: s1(1) u1(1))
    show "role u1 = User" "\<not> isPartial u1" "role a1 = Assistant" "text' u1 = ?U"
      by (rule u1(2), rule u1(4), rule s1(3), rule u1(3))
    show "transcript (render now (run dec rest ?s2)) = runQueue n c ?q0 ?T0 @ [u, a]"
      by (simp add: sf(1) u(1))
    show "role u = User" "\<not> isPartial u" "role a = Assistant" "text' u = ?U"
      by (rule u(2), rule u(4), rule sf(3), rule u(3))
    show "isPartial a
          = (currentOutputTransRef s @ concat (map outputText (mF # messagesOf rest)) = [])"
      by (simp only: sf(4) f(2))
    show "currentInputTransRef (run dec rest ?s2) = concat (map inputText (messagesOf rest))"
      by (rule f(3))
    show "currentOutputTransRef (run dec rest ?s2) = []"
      by (rule f(4))
  qed
qed

theorem user_line_precedes_reply_witness:
  "\<exists>u a. transcript (render 5 (run halfSecond
        [Message (clockAt 0) (inputDelta ''hel''), Render 1,
         Message (clockAt 0) (inputDelta ''lo''), Message (clockAt 0) (outputDelta ''Hi''),
         Render 2, Message (clockAt 0) (inputDelta '' ''),
         Message (clockAt 0) (outputDelta '' there''),
         Message (clockAt 0) turnCompleteMessage] initialSession)) = [u, a]
     \<and> role u = User \<and> text' u = ''hello'' \<and> \<not> isPartial u
     \<and> role a = Assistant \<and> \<not> isPartial a"
proof -
  let ?pre = "[Message (clockAt 0) (inputDelta ''hel''), Render 1,
               Message (clockAt 0) (inputDelta ''lo'')]"
  let ?rest = "[Render 2, Message (clockAt 0) (inputDelta '' ''),
                Message (clockAt 0) (outputDelta '' there''),
                Message (clockAt 0) turnCompleteMessage]"
  have h1: "\<forall>m\<in>set (messagesOf ?pre @ outputDelta ''Hi'' # messagesOf ?rest).
              \<not> interruptedFlag m \<and> audioDecodes halfSecond m"
    and h2: "\<forall>m\<in>set (messagesOf ?pre). outputTrans m = None \<and> \<not> turnCompleteFlag m"
    and h3: "outputTrans (outputDelta ''Hi'') \<noteq> None"
    and h4: "\<forall>m\<in>set (messagesOf ?rest). trim (inputText m) = []"
    and h5: "\<forall>m\<in>set (butlast (outputDelta ''Hi'' # messagesOf ?rest)). \<not> turnCompleteFlag m"
    and h6: "turnCompleteFlag (last (outputDelta ''Hi'' # messagesOf ?rest))"
    and h7: "trim (currentInputTransRef initialSession
               @ concat (map inputText (messagesOf ?pre @ [outputDelta ''Hi'']))) \<noteq> []"
    by (simp_all add: sample_facts initialSession_fields trim_samples)
  from user_line_precedes_reply [OF h1 h2 h3 h4 h5 h6 h7, where ?now1.0 = 4
      and envF = "clockAt 0" and now = 5]
  obtain u a where
    r: "transcript (render 5 (run halfSecond (?pre @ Message (clockAt 0) (outputDelta ''Hi'') # ?rest)
          initialSession)) = [u, a]"
      "role u = User" "\<not> isPartial u" "role a = Assistant" "text' u = ''hello''"
      "\<not> isPartial a"
    by (auto simp add: sample_facts initialSession_fields runQueue_simps(1))
  then show ?thesis
    by (intro exI [of _ u] exI [of _ a]) simp
qed

text \<open>
  C1 as stated fails: an input delta that arrives after the first output delta of the
  turn is appended at turn-complete, after the assistant line, which also stays partial.
\<close>

theorem reply_precedes_late_user_line:
  "transcript (run halfSecond
      [Message (clockAt 0) (outputDelta ''Hi''), Render 1,
       Message (clockAt 0) (inputDelta ''hello''), Render 2,
       Message (clockAt 0) turnCompleteMessage, Render 3] initialSession)
     = [assistantLine 1 ''Hi'', userLine 3 ''hello'']
   \<and> map role (transcript (run halfSecond
      [Message (clockAt 0) (outputDelta ''Hi''), Render 1,
       Message (clockAt 0) (inputDelta ''hello''), Render 2,
       Message (clockAt 0) turnCompleteMessage, Render 3] initialSession))
     = [Assistant, User]"
  by (simp add: run_samples)

text \<open>
  C2. Let the session hold an output context and a gain node, and let a sequence of
  messages deliver buffers, the \<open>i\<close>-th at clock time \<open>fst (bs ! i)\<close> with the
  non-negative duration \<open>snd (bs ! i)\<close>. Then the units started are those of the
  specification's rule. The \<open>i\<close>-th buffer starts at the maximum of the clock and of
  the cursor \<open>nextStartTime\<close> as the messages before it left it, and the cursor is then
  that start plus the duration of the buffer. The start times are non-decreasing, and a
  buffer that arrives no later than the end of the one before it starts exactly at that
  end.
\<close>

theorem playback_schedule:
  assumes "list_all2 (\<lambda>ev b. deliversBuffer dec (snd ev) (snd b) \<and> currentTime (fst ev) = fst b) evs bs"
    and "\<forall>b\<in>set bs. 0 \<le> snd b"
    and "outputAudioContextRef s \<noteq> None" and "outputNodeRef s \<noteq> None"
  shows "\<exists>new. starts (trace (deliverAll dec evs s)) = starts (trace s) @ new
      \<and> new = scheduleSpec (nextStartTimeRef s) bs
      \<and> length new = length evs
      \<and> (\<forall>i. i < length evs \<longrightarrow>
            fst (new ! i) = max (nextStartTimeRef (deliverAll dec (take i evs) s))
                                (currentTime (fst (evs ! i)))
            \<and> nextStartTimeRef (deliverAll dec (take (Suc i) evs) s) = fst (new ! i) + snd (new ! i))
      \<and> sorted (map fst new)
      \<and> (\<forall>i. Suc i < length new \<and> currentTime (fst (evs ! Suc i)) \<le> fst (new ! i) + snd (new ! i)
            \<longrightarrow> fst (new ! Suc i) = fst (new ! i) + snd (new ! i))"
proof -
  have len: "length bs = length evs"
    using assms(1) by (simp add: list_all2_lengthD)
  have clock: "currentTime (fst (evs ! i)) = fst (bs ! i)" if "i < length evs" for i
    using assms(1) that by (simp add: list_all2_conv_all_nth)
  have cur: "nextStartTimeRef (deliverAll dec (take n evs) s) = cursorSpec (nextStartTimeRef s) (take n bs)"
    for n
    using deliverAll_buffers [OF list_all2_takeI [OF assms(1)] assms(3,4)] by simp
  have step: "fst (scheduleSpec (nextStartTimeRef s) bs ! i)
                = max (nextStartTimeRef (deliverAll dec (take i evs) s)) (currentTime (fst (evs ! i)))
            \<and> nextStartTimeRef (deliverAll dec (take (Suc i) evs) s)
                = fst (scheduleSpec (nextStartTimeRef s) bs ! i) + snd (scheduleSpec (nextStartTimeRef s) bs ! i)"
    if "i < length evs" for i
    using that len by (simp add: cur clock scheduleSpec_nth cursorSpec_take_Suc)
  have b2b: "fst (scheduleSpec (nextStartTimeRef s) bs ! Suc i)
               = fst (scheduleSpec (nextStartTimeRef s) bs ! i) + snd (scheduleSpec (nextStartTimeRef s) bs ! i)"
    if "Suc i < length evs"
      "currentTime (fst (evs ! Suc i)) \<le> fst (scheduleSpec (nextStartTimeRef s) bs ! i)
          + snd (scheduleSpec (nextStartTimeRef s) bs ! i)" for i
    using that len by (intro scheduleSpec_back_to_back) (simp_all add: clock)
  show ?thesis
  proof (intro exI [of _ "scheduleSpec (nextStartTimeRef s) bs"] conjI)
    show "starts (trace (deliverAll dec evs s))
            = starts (trace s) @ scheduleSpec (nextStartTimeRef s) bs"
      using deliverAll_buffers [OF assms(1,3,4)] by simp
    show "scheduleSpec (nextStartTimeRef s) bs = scheduleSpec (nextStartTimeRef s) bs"
      by (rule refl)
    show "length (scheduleSpec (nextStartTimeRef s) bs) = length evs"
      by (simp add: scheduleSpec_length len)
    show "\<forall>i. i < length evs \<longrightarrow>
            fst (scheduleSpec (nextStartTimeRef s) bs ! i)
              = max (nextStartTimeRef (deliverAll dec (take i evs) s)) (currentTime (fst (evs ! i)))
            \<and> nextStartTimeRef (deliverAll dec (take (Suc i) evs) s)
              = fst (scheduleSpec (nextStartTimeRef s) bs ! i)
                + snd (scheduleSpec (nextStartTimeRef s) bs ! i)"
      using step by blast
    show "sorted (map fst (scheduleSpec (nextStartTimeRef s) bs))"
      by (rule scheduleSpec_sorted [OF assms(2)])
    show "\<forall>i. Suc i < length (scheduleSpec (nextStartTimeRef s) bs)
            \<and> currentTime (fst (evs ! Suc i))
                \<le> fst (scheduleSpec (nextStartTimeRef s) bs ! i)
                  + snd (scheduleSpec (nextStartTimeRef s) bs ! i)
            \<longrightarrow> fst (scheduleSpec (nextStartTimeRef s) bs ! Suc i)
                = fst (scheduleSpec (nextStartTimeRef s) bs ! i)
                  + snd (scheduleSpec (nextStartTimeRef s) bs ! i)"
      using b2b by (simp add: scheduleSpec_length len)
  qed
qed

theorem playback_schedule_witness:
  "deliversBuffer halfSecond (audioMessage ''AAAA'') (1 / 2)
   \<and> deliversBuffer halfSecond (audioMessage ''BBBB'') (1 / 2)
   \<and> deliversBuffer halfSecond (audioMessage ''CCCC'') (1 / 2)
   \<and> outputAudioContextRef connectedSession = Some 1
   \<and> outputNodeRef connectedSession = Some 2
   \<and> nextStartTimeRef connectedSession = 0
   \<and> starts (trace (deliverAll halfSecond
        [(clockAt 1, audioMessage ''AAAA''), (clockAt (5 / 4), audioMessage ''BBBB''),
         (clockAt 3, audioMessage ''CCCC'')] connectedSession))
      = [(1, 1 / 2), (3 / 2, 1 / 2), (3, 1 / 2)]"
proof -
  let ?evs = "[(clockAt 1, audioMessage ''AAAA''), (clockAt (5 / 4), audioMessage ''BBBB''),
         (clockAt 3, audioMessage ''CCCC'')]"
  let ?bs = "[(1, 1 / 2), (5 / 4, 1 / 2), (3, 1 / 2)] :: (real \<times> real) list"
  have h1: "list_all2 (\<lambda>ev b. deliversBuffer halfSecond (snd ev) (snd b) \<and> currentTime (fst ev) = fst b) ?evs ?bs"
    by (simp add: deliversBuffer_audioMessage clockAt_def)
  have h2: "\<forall>b\<in>set ?bs. 0 \<le> snd b" by simp
  have h3: "outputAudioContextRef connectedSession \<noteq> None" "outputNodeRef connectedSession \<noteq> None"
    by (simp_all add: connectedSession_fields)
  from playback_schedule [OF h1 h2 h3]
  have "starts (trace (deliverAll halfSecond ?evs connectedSession))
      = starts (trace connectedSession) @ scheduleSpec (nextStartTimeRef connectedSession) ?bs"
    by blast
  then show ?thesis
    by (simp add: deliversBuffer_audioMessage connectedSession_fields)
qed

text \<open>
  C3. Whatever the state, a message with the interrupted flag stops every unit in flight
  (one \<open>SourceStop\<close> per member of the in-flight set, in order), empties the set, puts
  the cursor \<open>nextStartTime\<close> back to zero and empties the pending assistant accumulator.
  A buffer delivered next starts at the maximum of zero and the clock, which is at or
  after the clock and does not depend on the audio that was queued before.
\<close>

theorem interruption_resets_playback:
  assumes "interruptedFlag m"
  shows "\<exists>s'. onmessage dec env m s = Inr s'
      \<and> trace s' = trace s @ map SourceStop (activeSourcesRef s)
      \<and> activeSourcesRef s' = []
      \<and> nextStartTimeRef s' = 0
      \<and> currentOutputTransRef s' = []
      \<and> (deliversBuffer dec m2 d \<and> outputAudioContextRef s \<noteq> None \<and> outputNodeRef s \<noteq> None
          \<longrightarrow> (\<exists>s'' start. onmessage dec env2 m2 s' = Inr s''
                \<and> starts (trace s'') = starts (trace s') @ [(start, d)]
                \<and> start = max 0 (currentTime env2)
                \<and> currentTime env2 \<le> start))"
proof -
  let ?s' = "interrupt s"
  have 1: "onmessage dec env m s = Inr ?s'"
    using assms by (rule onmessage_interrupted)
  have 3: "\<exists>s'' start. onmessage dec env2 m2 ?s' = Inr s''
                \<and> starts (trace s'') = starts (trace ?s') @ [(start, d)]
                \<and> start = max 0 (currentTime env2)
                \<and> currentTime env2 \<le> start"
    if b: "deliversBuffer dec m2 d" and c: "outputAudioContextRef s \<noteq> None" "outputNodeRef s \<noteq> None"
  proof -
    have ni: "\<not> interruptedFlag m2" using b by (simp add: deliversBuffer_def)
    have "scheduleAudio dec env2 m2 ?s' = Inr (?s'\<lparr>fresh := Suc (fresh ?s'),
           trace := trace ?s' @ [SourceStart (fresh ?s') (max (nextStartTimeRef ?s') (currentTime env2)) d],
           nextStartTimeRef := max (nextStartTimeRef ?s') (currentTime env2) + d,
           activeSourcesRef := activeSourcesRef ?s' @ [fresh ?s']\<rparr>)"
      using b c by (intro scheduleAudio_buffer) (simp_all add: interrupt_fields)
    then show ?thesis
      using ni by (simp add: onmessage_def transcription_frame starts_append interrupt_fields)
  qed
  show ?thesis using 1 3 by (simp add: interrupt_fields)
qed

theorem interruption_resets_playback_witness:
  "interruptedFlag interruptedMessage
   \<and> deliversBuffer halfSecond (audioMessage ''CCCC'') (1 / 2)
   \<and> activeSourcesRef busySession = [10, 11]
   \<and> nextStartTimeRef busySession = 2
   \<and> (\<exists>s' s''. onmessage halfSecond (clockAt (5 / 4)) interruptedMessage busySession = Inr s'
         \<and> onmessage halfSecond (clockAt (3 / 2)) (audioMessage ''CCCC'') s' = Inr s''
         \<and> starts (trace s'') = [(1, 1 / 2), (3 / 2, 1 / 2), (3 / 2, 1 / 2)])"
proof -
  have h: "interruptedFlag interruptedMessage"
    by (rule interruptedFlag_interruptedMessage)
  have b: "deliversBuffer halfSecond (audioMessage ''CCCC'') (1 / 2)"
    by (simp add: deliversBuffer_def message_defs halfSecond_def)
  note c = busySession_fields
  from interruption_resets_playback [OF h, of halfSecond "clockAt (5 / 4)" busySession
      "audioMessage ''CCCC''" "1 / 2" "clockAt (3 / 2)"] b c
  obtain s' s'' where
    "onmessage halfSecond (clockAt (5 / 4)) interruptedMessage busySession = Inr s'"
    "trace s' = trace busySession @ map SourceStop (activeSourcesRef busySession)"
    "onmessage halfSecond (clockAt (3 / 2)) (audioMessage ''CCCC'') s' = Inr s''"
    "starts (trace s'') = starts (trace s') @ [(max 0 (currentTime (clockAt (3 / 2))), 1 / 2)]"
    by auto
  then show ?thesis
    using h b c by (simp add: starts_append starts_stops clockAt_def)
qed

text \<open>
  C4. Let the credential be configured and let a step of \<open>connect\<close> throw: a
  constructor of an audio context, the microphone request, or the opening of the
  transport. Then the \<open>try\<close> block ends at that step with a message \<open>thrown\<close> and
  in a state \<open>sp\<close>, and \<open>connect\<close> returns what \<open>cleanup\<close> makes of \<open>sp\<close> after
  the error field was set to the non-empty message \<open>msg\<close> (the message thrown, or the
  fallback text when it is missing or empty) and the state to \<open>ERROR\<close>. The message is
  that of the failing step. The connection state goes through \<open>CONNECTING\<close> (unless
  it had that value), \<open>ERROR\<close> and \<open>DISCONNECTED\<close>, in this order and with
  nothing between, and ends as \<open>DISCONNECTED\<close> with \<open>msg\<close> in the error field. The
  references to the stream, the audio contexts and the transport are empty and no unit
  is in flight. Every audio context created during the call has been closed, and the
  stream and the contexts held at the throw have been stopped and closed.
\<close>

theorem connect_failure_cleans_up:
  assumes key: "orDefault (apiKey env) [] \<noteq> []"
    and fails: "\<not> inputContextOk env \<or> \<not> outputContextOk env \<or> isl (userMedia env) \<or> isl (liveConnect env)"
  shows "\<exists>thrown sp added msg. connectTry env s = Inl (thrown, sp)
      \<and> msg = orDefault thrown fallbackMessage \<and> msg \<noteq> []
      \<and> (\<not> inputContextOk env \<or> \<not> outputContextOk env \<longrightarrow> msg = audioContextMessage)
      \<and> (inputContextOk env \<and> outputContextOk env \<and> isl (userMedia env) \<longrightarrow>
            msg = microphoneErrorMessage (projl (userMedia env)))
      \<and> (inputContextOk env \<and> outputContextOk env \<and> \<not> isl (userMedia env) \<longrightarrow>
            msg = orDefault (projl (liveConnect env)) fallbackMessage)
      \<and> connect env s = cleanup (setConnectionState ERROR (sp\<lparr>error := Some msg\<rparr>))
      \<and> transitions (connect env s) = transitions sp @ [ERROR, DISCONNECTED]
      \<and> transitions sp
          = transitions s @ (if connectionState s = CONNECTING then [] else [CONNECTING])
      \<and> connectionState (connect env s) = DISCONNECTED
      \<and> error (connect env s) = Some msg
      \<and> activeSourcesRef (connect env s) = []
      \<and> streamRef (connect env s) = None
      \<and> inputAudioContextRef (connect env s) = None
      \<and> outputAudioContextRef (connect env s) = None
      \<and> sessionRef (connect env s) = None
      \<and> trace sp = trace s @ added
      \<and> (\<forall>c. ContextCreate c \<in> set added \<longrightarrow> ContextClose c \<in> set (trace (connect env s)))
      \<and> (\<forall>st. streamRef sp = Some st \<longrightarrow> TracksStop st \<in> set (trace (connect env s)))
      \<and> (\<forall>c. inputAudioContextRef sp = Some c \<longrightarrow> ContextClose c \<in> set (trace (connect env s)))
      \<and> (\<forall>c. outputAudioContextRef sp = Some c \<longrightarrow> ContextClose c \<in> set (trace (connect env s)))"
proof -
  from connectTry_throws [OF fails, of s] obtain thrown sp added where
    t: "connectTry env s = Inl (thrown, sp)" "connectionState sp = CONNECTING"
      "transitions sp
         = transitions s @ (if connectionState s = CONNECTING then [] else [CONNECTING])"
      "trace sp = trace s @ added"
      "\<forall>c. ContextCreate c \<in> set added \<longrightarrow>
            inputAudioContextRef sp = Some c \<or> outputAudioContextRef sp = Some c"
      "\<not> inputContextOk env \<or> \<not> outputContextOk env \<longrightarrow> thrown = Some audioContextMessage"
      "inputContextOk env \<and> outputContextOk env \<and> isl (userMedia env) \<longrightarrow>
            thrown = Some (microphoneErrorMessage (projl (userMedia env)))"
      "inputContextOk env \<and> outputContextOk env \<and> \<not> isl (userMedia env) \<longrightarrow>
            thrown = projl (liveConnect env)"
    by blast
  let ?msg = "orDefault thrown fallbackMessage"
  let ?sE = "setConnectionState ERROR (sp\<lparr>error := Some ?msg\<rparr>)"
  have c: "connect env s = cleanup ?sE"
    using key t(1) by (simp add: connect_def connectCatch_def)
  have m: "?msg \<noteq> []"
    by (rule orDefault_nonempty) (simp add: fallbackMessage_def)
  have sE: "connectionState ?sE = ERROR" "error ?sE = Some ?msg"
    "transitions ?sE = transitions sp @ [ERROR]" "trace ?sE = trace sp"
    "streamRef ?sE = streamRef sp" "inputAudioContextRef ?sE = inputAudioContextRef sp"
    "outputAudioContextRef ?sE = outputAudioContextRef sp"
    by (simp_all add: setConnectionState_view t(2))
  have tr: "transitions (connect env s) = transitions sp @ [ERROR, DISCONNECTED]"
    by (simp add: c cleanup_transitions sE)
  have rel: "TracksStop st \<in> set (trace (connect env s))" if "streamRef sp = Some st" for st
    using that cleanup_releases(2) [of ?sE st] by (simp add: c sE)
  have inC: "ContextClose x \<in> set (trace (connect env s))" if "inputAudioContextRef sp = Some x" for x
    using that cleanup_releases(3) [of ?sE x] by (simp add: c sE)
  have outC: "ContextClose x \<in> set (trace (connect env s))" if "outputAudioContextRef sp = Some x" for x
    using that cleanup_releases(4) [of ?sE x] by (simp add: c sE)
  have made: "ContextClose x \<in> set (trace (connect env s))" if "ContextCreate x \<in> set added" for x
    using that t(5) inC outC by blast
  have am: "msg = audioContextMessage"
    if "\<not> inputContextOk env \<or> \<not> outputContextOk env" "msg = ?msg" for msg
    using that t(6) by (simp add: orDefault_def audioContextMessage_def)
  show ?thesis
  proof (intro exI [of _ thrown] exI [of _ sp] exI [of _ added] exI [of _ ?msg] conjI)
    show "connectTry env s = Inl (thrown, sp)" by (rule t(1))
    show "?msg = orDefault thrown fallbackMessage" by (rule refl)
    show "?msg \<noteq> []" by (rule m)
    show "\<not> inputContextOk env \<or> \<not> outputContextOk env \<longrightarrow> ?msg = audioContextMessage"
      using am by blast
    show "inputContextOk env \<and> outputContextOk env \<and> isl (userMedia env) \<longrightarrow>
            ?msg = microphoneErrorMessage (projl (userMedia env))"
      using t(7) by (simp add: orDefault_def microphoneErrorMessage_nonempty)
    show "inputContextOk env \<and> outputContextOk env \<and> \<not> isl (userMedia env) \<longrightarrow>
            ?msg = orDefault (projl (liveConnect env)) fallbackMessage"
      using t(8) by simp
    show "connect env s = cleanup ?sE" by (rule c)
    show "transitions (connect env s) = transitions sp @ [ERROR, DISCONNECTED]" by (rule tr)
    show "transitions sp
          = transitions s @ (if connectionState s = CONNECTING then [] else [CONNECTING])"
      by (rule t(3))
    show "connectionState (connect env s) = DISCONNECTED" by (simp add: c cleanup_fields)
    show "error (connect env s) = Some ?msg" by (simp add: c cleanup_frame sE)
    show "activeSourcesRef (connect env s) = []" by (simp add: c cleanup_fields)
    show "streamRef (connect env s) = None" by (simp add: c cleanup_fields)
    show "inputAudioContextRef (connect env s) = None" by (simp add: c cleanup_fields)
    show "outputAudioContextRef (connect env s) = None" by (simp add: c cleanup_fields)
    show "sessionRef (connect env s) = None" by (simp add: c cleanup_fields)
    show "trace sp = trace s @ added" by (rule t(4))
    show "\<forall>c. ContextCreate c \<in> set added \<longrightarrow> ContextClose c \<in> set (trace (connect env s))"
      using made by blast
    show "\<forall>st. streamRef sp = Some st \<longrightarrow> TracksStop st \<in> set (trace (connect env s))"
      using rel by blast
    show "\<forall>c. inputAudioContextRef sp = Some c \<longrightarrow> ContextClose c \<in> set (trace (connect env s))"
      using inC by blast
    show "\<forall>c. outputAudioContextRef sp = Some c \<longrightarrow> ContextClose c \<in> set (trace (connect env s))"
      using outC by blast
  qed
qed

theorem connect_failure_cleans_up_witness:
  "orDefault (apiKey micDeniedEnv) [] \<noteq> []
   \<and> isl (userMedia micDeniedEnv)
   \<and> connectionState (connect micDeniedEnv initialSession) = DISCONNECTED
   \<and> transitions (connect micDeniedEnv initialSession) = [CONNECTING, ERROR, DISCONNECTED]
   \<and> error (connect micDeniedEnv initialSession)
       = Some ''Microphone access denied. Please allow permissions in your browser settings.''
   \<and> trace (connect micDeniedEnv initialSession)
       = [ContextCreate 0, ContextCreate 1, GetUserMedia, ContextClose 0, ContextClose 1]"
proof -
  have k: "orDefault (apiKey micDeniedEnv) [] \<noteq> []"
    by (simp add: micDeniedEnv_def goodEnv_def orDefault_def)
  have f: "isl (userMedia micDeniedEnv)"
    by (simp add: micDeniedEnv_def goodEnv_def)
  then have "\<not> inputContextOk micDeniedEnv \<or> \<not> outputContextOk micDeniedEnv
      \<or> isl (userMedia micDeniedEnv) \<or> isl (liveConnect micDeniedEnv)"
    by simp
  from connect_failure_cleans_up [OF k this, of initialSession] k f
  show ?thesis by (simp add: connect_micDeniedEnv initialSession_fields)
qed

text \<open>
  C5, as amended. \<open>cleanup\<close> is a total function of the state, so it cannot fail, and
  running it twice gives the state that running it once gives. On the state of a freshly
  mounted hook it changes nothing. Afterwards the state is \<open>DISCONNECTED\<close>, the volume
  is 0, both accumulators are empty, the cursor is 0, the in-flight set is empty and the
  references to the stream, both audio contexts and the transport are empty. The
  references to the nodes of the audio graphs (gain, compressor, both analysers, input
  source, processor) keep their values.
\<close>

theorem cleanup_idempotent:
  "cleanup (cleanup s) = cleanup s
   \<and> cleanup initialSession = initialSession
   \<and> connectionState (cleanup s) = DISCONNECTED
   \<and> volume (cleanup s) = 0
   \<and> currentInputTransRef (cleanup s) = []
   \<and> currentOutputTransRef (cleanup s) = []
   \<and> nextStartTimeRef (cleanup s) = 0
   \<and> activeSourcesRef (cleanup s) = []
   \<and> streamRef (cleanup s) = None
   \<and> inputAudioContextRef (cleanup s) = None
   \<and> outputAudioContextRef (cleanup s) = None
   \<and> sessionRef (cleanup s) = None
   \<and> outputNodeRef (cleanup s) = outputNodeRef s
   \<and> compressorRef (cleanup s) = compressorRef s
   \<and> inputAnalyzerRef (cleanup s) = inputAnalyzerRef s
   \<and> outputAnalyzerRef (cleanup s) = outputAnalyzerRef s
   \<and> inputSourceRef (cleanup s) = inputSourceRef s
   \<and> processorRef (cleanup s) = processorRef s"
  by (simp only: cleanup_twice cleanup_initial cleanup_fields cleanup_frame simp_thms)

text \<open>
  C5 as stated fails: after a successful \<open>connect\<close>, \<open>cleanup\<close> leaves the reference
  to the gain node (and to the other graph nodes) set.
\<close>

theorem cleanup_leaves_node_refs:
  "outputNodeRef (cleanup (connect goodEnv initialSession)) = Some 2
   \<and> compressorRef (cleanup (connect goodEnv initialSession)) = Some 3
   \<and> inputAnalyzerRef (cleanup (connect goodEnv initialSession)) = Some 5"
  by (simp add: cleanup_frame connect_goodEnv)

text \<open>
  C6, as amended. Take events of one turn: messages without interruption and without
  turn-complete whose audio decodes, with renders of React at any moments between them.
  \<open>mF\<close> is the first message that carries an output delta, \<open>pre\<close> are the events
  before it and \<open>rest\<close> those after it (with or without output deltas). Let every
  input delta that arrives after \<open>mF\<close> be blank. Let the user text \<open>U\<close> gathered
  up to and including \<open>mF\<close> hold a non-whitespace character, or let the log that the
  updaters waiting at the start give not end with a partial assistant entry. Then at a
  render after these events the log is that log, then the finalized user line with text
  \<open>U\<close> if \<open>U\<close> is not blank, then exactly one assistant entry. This entry is
  partial and its text is the assistant accumulator of the start followed by all output
  deltas received, in order. If the log before the turn has no partial entry, this entry
  is the only partial entry of the log.
\<close>

theorem output_deltas_make_one_partial_line:
  assumes plain: "\<forall>m\<in>set (messagesOf pre @ mF # messagesOf rest).
            \<not> interruptedFlag m \<and> \<not> turnCompleteFlag m \<and> audioDecodes dec m"
    and pre: "\<forall>m\<in>set (messagesOf pre). outputTrans m = None"
    and first: "outputTrans mF \<noteq> None"
    and rest: "\<forall>m\<in>set (messagesOf rest). trim (inputText m) = []"
    and tail: "trim (currentInputTransRef s @ concat (map inputText (messagesOf pre @ [mF]))) \<noteq> []
         \<or> (\<forall>n c. \<not> endsWithPartialAssistant (runQueue n c (transcriptQueue s) (transcript s)))"
  shows "\<exists>n c us a.
      transcript (render now (run dec (pre @ Message envF mF # rest) s))
        = runQueue n c (transcriptQueue s) (transcript s) @ us @ [a]
      \<and> (if trim (currentInputTransRef s @ concat (map inputText (messagesOf pre @ [mF]))) = []
          then us = []
          else (\<exists>u. us = [u] \<and> role u = User \<and> \<not> isPartial u
                \<and> text' u = currentInputTransRef s @ concat (map inputText (messagesOf pre @ [mF]))))
      \<and> role a = Assistant \<and> isPartial a
      \<and> text' a = currentOutputTransRef s @ concat (map outputText (mF # messagesOf rest))
      \<and> ((\<forall>e\<in>set (runQueue n c (transcriptQueue s) (transcript s)). \<not> isPartial e) \<longrightarrow>
            filter isPartial (transcript (render now (run dec (pre @ Message envF mF # rest) s)))
              = [a])"
proof -
  let ?q0 = "transcriptQueue s"
  let ?T0 = "transcript s"
  let ?s1 = "run dec pre s"
  let ?s2 = "deliver dec (envF, mF) ?s1"
  let ?U = "currentInputTransRef s @ concat (map inputText (messagesOf pre @ [mF]))"
  let ?O2 = "currentOutputTransRef s @ outputText mF"
  have "\<forall>m\<in>set (messagesOf pre). \<not> interruptedFlag m \<and> audioDecodes dec m
             \<and> outputTrans m = None \<and> \<not> turnCompleteFlag m"
    using plain pre by simp
  from noOutput_phase [OF this pending_start]
  have 1: "pending ?q0 ?T0 ?s1"
    "currentInputTransRef ?s1 = currentInputTransRef s @ concat (map inputText (messagesOf pre))"
    "currentOutputTransRef ?s1 = currentOutputTransRef s"
    by simp_all
  have m: "\<not> interruptedFlag mF" "audioDecodes dec mF" "outputTrans mF \<noteq> None"
    and ntc: "\<not> turnCompleteFlag mF"
    using plain first by simp_all
  have U: "currentInputTransRef ?s1 @ inputText mF = ?U"
    by (simp add: 1)
  note h = firstOutput_handled [OF m, of envF ?s1]
  have 2: "trim (currentInputTransRef ?s2) = []" "currentOutputTransRef ?s2 = ?O2"
    using ntc by (simp_all add: h 1(3))
  have "turnInvariant ?q0 ?T0 (currentInputTransRef ?s1 @ inputText mF)
          (\<not> turnCompleteFlag mF \<or> currentOutputTransRef ?s1 @ outputText mF = []) ?s2"
    using tail by (intro turnInvariant_first [OF m 1(1)]) (simp only: U)
  then have i2: "turnInvariant ?q0 ?T0 ?U True ?s2"
    using ntc by (simp only: U) simp
  have restp: "\<forall>m\<in>set (messagesOf rest). \<not> interruptedFlag m \<and> audioDecodes dec m
             \<and> trim (inputText m) = [] \<and> \<not> turnCompleteFlag m"
    using plain rest by simp
  note ph = blankInput_phase [OF restp 2(1) i2]
  have 3: "turnInvariant ?q0 ?T0 ?U True (run dec rest ?s2)"
    "currentOutputTransRef (run dec rest ?s2) = ?O2 @ concat (map outputText (messagesOf rest))"
    using ph [THEN conjunct1] ph [THEN conjunct2, THEN conjunct2, THEN conjunct2]
    by (simp_all add: 2(2))
  from turnInvariant_shown [OF 3(1), of now] obtain n c base a where
    sf: "transcript (render now (run dec rest ?s2)) = base @ [a]"
      "turnBase (runQueue n c ?q0 ?T0) ?U base"
      "role a = Assistant" "isPartial a" "text' a = currentOutputTransRef (run dec rest ?s2)"
    by auto
  from turnBase_shape [OF sf(2)] obtain us where
    us: "base = runQueue n c ?q0 ?T0 @ us"
      "if trim ?U = [] then us = []
       else (\<exists>u. us = [u] \<and> role u = User \<and> text' u = ?U \<and> \<not> isPartial u)"
    by blast
  have nop: "filter isPartial us = []"
    using us(2) by (auto split: if_splits)
  have r2: "run dec (pre @ Message envF mF # rest) s = run dec rest ?s2"
    by (simp add: run_append)
  have only: "filter isPartial (runQueue n c ?q0 ?T0 @ us @ [a]) = [a]"
    if "\<forall>e\<in>set (runQueue n c ?q0 ?T0). \<not> isPartial e"
    using that nop sf(4) by simp
  show ?thesis
    unfolding r2
  proof (intro exI [of _ n] exI [of _ c] exI [of _ us] exI [of _ a] conjI)
    show "transcript (render now (run dec rest ?s2)) = runQueue n c ?q0 ?T0 @ us @ [a]"
      by (simp add: sf(1) us(1))
    show "if trim ?U = [] then us = []
          else (\<exists>u. us = [u] \<and> role u = User \<and> \<not> isPartial u \<and> text' u = ?U)"
      using us(2) by (auto split: if_splits)
    show "role a = Assistant" "isPartial a" by (rule sf(3), rule sf(4))
    show "text' a = currentOutputTransRef s @ concat (map outputText (mF # messagesOf rest))"
      by (simp add: sf(5) 3(2))
    show "(\<forall>e\<in>set (runQueue n c ?q0 ?T0). \<not> isPartial e) \<longrightarrow>
            filter isPartial (transcript (render now (run dec rest ?s2))) = [a]"
      using only by (simp add: sf(1) us(1))
  qed
qed

theorem output_deltas_make_one_partial_line_witness:
  "\<exists>u a. transcript (render 3 (run halfSecond
        [Message (clockAt 0) (inputDelta ''hi''), Message (clockAt 0) (outputDelta ''Hel''),
         Render 1, Message (clockAt 0) (audioMessage ''AAAA''),
         Message (clockAt 0) (outputDelta ''lo''), Render 2] initialSession)) = [u, a]
     \<and> role u = User \<and> text' u = ''hi'' \<and> \<not> isPartial u
     \<and> role a = Assistant \<and> isPartial a \<and> text' a = ''Hello''
     \<and> filter isPartial (transcript (render 3 (run halfSecond
        [Message (clockAt 0) (inputDelta ''hi''), Message (clockAt 0) (outputDelta ''Hel''),
         Render 1, Message (clockAt 0) (audioMessage ''AAAA''),
         Message (clockAt 0) (outputDelta ''lo''), Render 2] initialSession))) = [a]"
proof -
  let ?pre = "[Message (clockAt 0) (inputDelta ''hi'')]"
  let ?rest = "[Render 1, Message (clockAt 0) (audioMessage ''AAAA''),
                Message (clockAt 0) (outputDelta ''lo''), Render 2]"
  have h1: "\<forall>m\<in>set (messagesOf ?pre @ outputDelta ''Hel'' # messagesOf ?rest).
              \<not> interruptedFlag m \<and> \<not> turnCompleteFlag m \<and> audioDecodes halfSecond m"
    and h2: "\<forall>m\<in>set (messagesOf ?pre). outputTrans m = None"
    and h3: "outputTrans (outputDelta ''Hel'') \<noteq> None"
    and h4: "\<forall>m\<in>set (messagesOf ?rest). trim (inputText m) = []"
    and h5: "trim (currentInputTransRef initialSession
               @ concat (map inputText (messagesOf ?pre @ [outputDelta ''Hel'']))) \<noteq> []
             \<or> (\<forall>n c. \<not> endsWithPartialAssistant
                    (runQueue n c (transcriptQueue initialSession) (transcript initialSession)))"
    by (simp_all add: sample_facts initialSession_fields trim_samples)
  from output_deltas_make_one_partial_line [OF h1 h2 h3 h4 h5, where now = 3
      and envF = "clockAt 0"]
  obtain us a where
    r: "transcript (render 3 (run halfSecond (?pre @ Message (clockAt 0) (outputDelta ''Hel'') # ?rest)
          initialSession)) = us @ [a]"
      "\<exists>u. us = [u] \<and> role u = User \<and> \<not> isPartial u \<and> text' u = ''hi''"
      "role a = Assistant" "isPartial a" "text' a = ''Hello''"
      "filter isPartial (transcript (render 3 (run halfSecond
          (?pre @ Message (clockAt 0) (outputDelta ''Hel'') # ?rest) initialSession))) = [a]"
    by (auto simp add: sample_facts initialSession_fields trim_samples runQueue_simps(1))
  from r(2) obtain u where u: "us = [u]" "role u = User" "\<not> isPartial u" "text' u = ''hi''"
    by blast
  show ?thesis
    using r(1,3,4,5,6) u by (intro exI [of _ u] exI [of _ a]) simp
qed

text \<open>
  C6 as stated fails: an input delta between two output deltas of a turn is neither an
  interruption nor turn-complete, and the second output delta then flushes a user line
  and adds a second partial assistant entry.
\<close>

theorem input_between_output_deltas_adds_second_partial:
  "transcript (run halfSecond
      [Message (clockAt 0) (outputDelta ''X''), Render 1,
       Message (clockAt 0) (inputDelta ''b''), Render 2,
       Message (clockAt 0) (outputDelta ''Y''), Render 3] initialSession)
     = [assistantLine 1 ''X'', userLine 3 ''b'', assistantLine 3 ''XY'']
   \<and> map isPartial (transcript (run halfSecond
      [Message (clockAt 0) (outputDelta ''X''), Render 1,
       Message (clockAt 0) (inputDelta ''b''), Render 2,
       Message (clockAt 0) (outputDelta ''Y''), Render 3] initialSession))
     = [True, False, True]"
  by (simp add: run_samples)




text \<open>
  C8. With no credential configured (undefined or empty), \<open>connect\<close> writes the message
  about the missing key to the error field and returns: nothing else of the state changes.
  The connection state stays what it was, so a disconnected session stays disconnected; no
  effect is added to the trace, so the microphone is not requested, no audio context is
  created and no transport is opened; no reference is set.
\<close>

theorem connect_without_credential:
  assumes "apiKey env = None \<or> apiKey env = Some []"
  shows "error (connect env s) = Some ''API Key is missing. Please check your environment configuration.''
    \<and> connect env s = s\<lparr>error := error (connect env s)\<rparr>
    \<and> connectionState (connect env s) = connectionState s
    \<and> trace (connect env s) = trace s
    \<and> streamRef (connect env s) = streamRef s
    \<and> inputAudioContextRef (connect env s) = inputAudioContextRef s
    \<and> outputAudioContextRef (connect env s) = outputAudioContextRef s
    \<and> sessionRef (connect env s) = sessionRef s"
  by (simp add: connect_no_key [OF assms] apiKeyMessage_def)

theorem connect_without_credential_witness:
  "apiKey noKeyEnv = None
   \<and> connectionState (connect noKeyEnv initialSession) = DISCONNECTED
   \<and> error (connect noKeyEnv initialSession)
       = Some ''API Key is missing. Please check your environment configuration.''
   \<and> trace (connect noKeyEnv initialSession) = []"
proof -
  have h: "apiKey noKeyEnv = None"
    by (simp add: noKeyEnv_def goodEnv_def)
  then have "apiKey noKeyEnv = None \<or> apiKey noKeyEnv = Some []" by simp
  from connect_without_credential [OF this, of initialSession] h
  show ?thesis by (simp add: initialSession_fields)
qed




end
